theory Spec2Isabelle
  imports Complex_Main "HOL-Library.AList"
begin

section \<open>Chunk codec: 16-bit quantisation and its inverse\<close>

text \<open>
  The source page (\<^verbatim>\<open>host-room.tsx\<close>, \<^verbatim>\<open>onaudioprocess\<close>) turns every merged
  sample into a signed 16-bit integer:
  \<^verbatim>\<open>
  const s = Math.max(-1, Math.min(1, merged[i]));
  int16Array[i] = s < 0 ? s * 0x8000 : s * 0x7fff;
  \<close>
  A sample is an element of a \<^verbatim>\<open>Float32Array\<close>: a finite binary fraction, an
  infinity, or NaN. Finite samples are modelled as exact rationals. (A product of a
  32-bit float of magnitude at most 1 with a 15- or 16-bit integer constant is exact in
  double precision, so no rounding is lost in the quantiser.)
\<close>

datatype jsnum = Num rat | PosInfinity | NegInfinity | NaN

text \<open>\<^verbatim>\<open>Math.min\<close> and \<^verbatim>\<open>Math.max\<close>: NaN when an argument is NaN.\<close>

fun Math_min :: "jsnum \<Rightarrow> jsnum \<Rightarrow> jsnum" where
  "Math_min NaN y = NaN"
| "Math_min x NaN = NaN"
| "Math_min NegInfinity y = NegInfinity"
| "Math_min x NegInfinity = NegInfinity"
| "Math_min PosInfinity y = y"
| "Math_min x PosInfinity = x"
| "Math_min (Num a) (Num b) = Num (min a b)"

fun Math_max :: "jsnum \<Rightarrow> jsnum \<Rightarrow> jsnum" where
  "Math_max NaN y = NaN"
| "Math_max x NaN = NaN"
| "Math_max PosInfinity y = PosInfinity"
| "Math_max x PosInfinity = PosInfinity"
| "Math_max NegInfinity y = y"
| "Math_max x NegInfinity = x"
| "Math_max (Num a) (Num b) = Num (max a b)"

text \<open>The comparison \<^verbatim>\<open>x < y\<close>: false when an argument is NaN.\<close>

fun js_less :: "jsnum \<Rightarrow> jsnum \<Rightarrow> bool" where
  "js_less NaN y = False"
| "js_less x NaN = False"
| "js_less (Num a) (Num b) = (a < b)"
| "js_less NegInfinity NegInfinity = False"
| "js_less NegInfinity y = True"
| "js_less x NegInfinity = False"
| "js_less PosInfinity y = False"
| "js_less x PosInfinity = True"

text \<open>The product \<^verbatim>\<open>s * c\<close> with a positive finite constant \<open>c\<close>.\<close>

fun js_scale :: "jsnum \<Rightarrow> rat \<Rightarrow> jsnum" where
  "js_scale (Num a) c = Num (a * c)"
| "js_scale PosInfinity c = PosInfinity"
| "js_scale NegInfinity c = NegInfinity"
| "js_scale NaN c = NaN"

text \<open>
  Storing a number into an \<^verbatim>\<open>Int16Array\<close> applies ECMAScript's ToInt16: NaN and the
  infinities become 0; a finite number is truncated towards zero, reduced modulo
  \<open>2^16\<close> and read as two's complement.
\<close>

definition js_trunc :: "rat \<Rightarrow> int" where
  "js_trunc q = (if q < 0 then - \<lfloor>- q\<rfloor> else \<lfloor>q\<rfloor>)"

definition wrap16 :: "int \<Rightarrow> int" where
  "wrap16 n = (let m = n mod 65536 in if 32768 \<le> m then m - 65536 else m)"

fun ToInt16 :: "jsnum \<Rightarrow> int" where
  "ToInt16 (Num q) = wrap16 (js_trunc q)"
| "ToInt16 PosInfinity = 0"
| "ToInt16 NegInfinity = 0"
| "ToInt16 NaN = 0"

text \<open>The quantiser; \<^verbatim>\<open>0x8000\<close> is 32768 and \<^verbatim>\<open>0x7fff\<close> is 32767.\<close>

definition quantize_sample :: "jsnum \<Rightarrow> int" where
  "quantize_sample x =
     (let s = Math_max (Num (- 1)) (Math_min (Num 1) x)
      in ToInt16 (if js_less s (Num 0) then js_scale s 32768 else js_scale s 32767))"

text \<open>
  The listener page (\<^verbatim>\<open>join-room.tsx\<close>, \<^verbatim>\<open>playAudioData\<close>) decodes each 16-bit
  integer back:
  \<^verbatim>\<open>float32Array[i] = int16Array[i] / (int16Array[i] < 0 ? 0x8000 : 0x7fff);\<close>
  The quotient is taken here over the rationals; the rounding of the quotient to a
  32-bit float is not part of the model.
\<close>

definition decode_sample :: "int \<Rightarrow> rat" where
  "decode_sample v = of_int v / (if v < 0 then 32768 else 32767)"

section \<open>Listener: jitter buffer and playback scheduler\<close>

text \<open>The constants of \<^verbatim>\<open>join-room.tsx\<close>. Times are seconds, as exact rationals.\<close>

definition SAMPLE_RATE :: rat where
  "SAMPLE_RATE = 48000"

definition BUFFER_SIZE :: rat where
  "BUFFER_SIZE = 2048"

definition CHUNKS_PER_SECOND :: rat where
  "CHUNKS_PER_SECOND = SAMPLE_RATE / BUFFER_SIZE"

definition TARGET_DELAY_SECONDS :: rat where
  "TARGET_DELAY_SECONDS = 6"

definition TARGET_BUFFER_SIZE :: int where
  "TARGET_BUFFER_SIZE = \<lfloor>CHUNKS_PER_SECOND * TARGET_DELAY_SECONDS\<rfloor>"

definition SCHEDULE_AHEAD_TIME :: rat where
  "SCHEDULE_AHEAD_TIME = 6 / 10"

definition maxChunksPerCycle :: nat where
  "maxChunksPerCycle = 20"

text \<open>
  The refs and the state of the \<^verbatim>\<open>JoinRoom\<close> component that the audio path reads and
  writes. \<open>audioBuffer\<close> is the \<^verbatim>\<open>Map<number, Float32Array>\<close>, kept as an association
  list in insertion order (\<^verbatim>\<open>set\<close> is \<open>AList.update\<close>, \<^verbatim>\<open>delete\<close> is \<open>AList.delete\<close>,
  \<^verbatim>\<open>has\<close> and \<^verbatim>\<open>get\<close> are \<open>map_of\<close>). \<open>audioContext\<close> says that
  \<^verbatim>\<open>audioContextRef.current\<close> and \<^verbatim>\<open>gainNodeRef.current\<close> are set, \<open>scheduler\<close> that
  the interval timer of \<^verbatim>\<open>startScheduler\<close> is installed. The React state
  \<^verbatim>\<open>isBuffering\<close> is always set together with \<^verbatim>\<open>isBufferingRef\<close> and is not kept
  apart.
\<close>

type_synonym block = "rat list"

record listener =
  audioContext :: bool
  audioBuffer :: "(int \<times> block) list"
  nextPlaySeq :: "int option"
  nextPlayTime :: rat
  isBuffering :: bool
  latestReceivedSeq :: int
  hasStartedPlayback :: bool
  scheduler :: bool
  isDelayed :: bool
  bufferStatus :: "nat \<times> int \<times> rat"

text \<open>
  What one call of \<^verbatim>\<open>scheduleAudio\<close> leaves behind: the listener, the
  \<^verbatim>\<open>source.start(t)\<close> calls it made (sequence number and start time, in order), the
  final value of the local counter \<^verbatim>\<open>chunksScheduled\<close>, and whether the call ended
  in an exception. \<^verbatim>\<open>ctx.createBuffer(2, frameCount, SAMPLE_RATE)\<close> raises
  NotSupportedError for a block of fewer than one frame; nothing in the tick catches it.
\<close>

record tick_result =
  listener_after :: listener
  sources_started :: "(int \<times> rat) list"
  chunks_taken :: nat
  threw :: bool

definition returned :: "listener \<Rightarrow> tick_result" where
  "returned st = \<lparr>listener_after = st, sources_started = [], chunks_taken = 0, threw = False\<rparr>"

text \<open>Lines 94--98: the buffered duration in seconds (two interleaved channels).\<close>

definition totalSamples :: "(int \<times> block) list \<Rightarrow> nat" where
  "totalSamples buffer = sum_list (map (\<lambda>chunk. length chunk) (map snd buffer))"

definition delaySeconds :: "(int \<times> block) list \<Rightarrow> rat" where
  "delaySeconds buffer = (of_nat (totalSamples buffer) / 2) / SAMPLE_RATE"

text \<open>
  Lines 109--124, the branch taken in the buffering state once enough is buffered:
  leave buffering, resynchronise the pointer when it is unset or not buffered, and
  place the play time slightly in the future.
\<close>

definition startPlayback :: "rat \<Rightarrow> listener \<Rightarrow> listener" where
  "startPlayback now st =
     (let buffer = audioBuffer st;
          st1 = st\<lparr>isBuffering := False, hasStartedPlayback := True\<rparr>;
          st2 =
            (if (case nextPlaySeq st1 of None \<Rightarrow> True | Some p \<Rightarrow> map_of buffer p = None)
             then (case sort (map fst buffer) of
                     [] \<Rightarrow> st1
                   | k # ks \<Rightarrow> st1\<lparr>nextPlaySeq := Some k\<rparr>)
             else st1)
      in st2\<lparr>nextPlayTime := max (now + 2 / 10) (nextPlayTime st2)\<rparr>)"

text \<open>Lines 104--128: \<open>None\<close> is the early \<^verbatim>\<open>return\<close>.\<close>

definition bufferingPhase :: "rat \<Rightarrow> listener \<Rightarrow> listener option" where
  "bufferingPhase now st =
     (if isBuffering st then
        (if TARGET_DELAY_SECONDS \<le> delaySeconds (audioBuffer st)
         then Some (startPlayback now st)
         else None)
      else Some st)"

text \<open>Line 132: the underrun test.\<close>

definition underrun :: "rat \<Rightarrow> listener \<Rightarrow> bool" where
  "underrun now st =
     (case nextPlaySeq st of
        None \<Rightarrow> False
      | Some p \<Rightarrow> map_of (audioBuffer st) p = None \<and> \<not> isBuffering st \<and> nextPlayTime st < now)"

text \<open>Lines 140--144: drift correction.\<close>

definition driftCorrection :: "rat \<Rightarrow> listener \<Rightarrow> listener" where
  "driftCorrection now st =
     (let drift = nextPlayTime st - now
      in if drift < 0 then st\<lparr>nextPlayTime := now + 5 / 100\<rparr> else st)"

text \<open>
  Lines 149--179: the scheduling loop. Each round takes the block at the pointer out
  of the buffer, advances the pointer and the counter, creates an audio buffer of
  \<open>length samples div 2\<close> frames (the unsigned-long conversion of
  \<^verbatim>\<open>samples.length / 2\<close>), starts it at the tracked play time and advances that time
  by the buffer's duration. The de-interleaved channel data is not recorded.
\<close>

function scheduleLoop :: "rat \<Rightarrow> listener \<Rightarrow> nat \<Rightarrow> (int \<times> rat) list \<Rightarrow> tick_result" where
  "scheduleLoop now st chunksScheduled started =
     (case nextPlaySeq st of
        None \<Rightarrow>
          \<lparr>listener_after = st, sources_started = started,
           chunks_taken = chunksScheduled, threw = False\<rparr>
      | Some seq \<Rightarrow>
          (case map_of (audioBuffer st) seq of
             None \<Rightarrow>
               \<lparr>listener_after = st, sources_started = started,
                chunks_taken = chunksScheduled, threw = False\<rparr>
           | Some samples \<Rightarrow>
               (if nextPlayTime st < now + SCHEDULE_AHEAD_TIME
                   \<and> chunksScheduled < maxChunksPerCycle
                then
                  (let st1 = st\<lparr>audioBuffer := AList.delete seq (audioBuffer st),
                                 nextPlaySeq := Some (seq + 1)\<rparr>;
                       frameCount = length samples div 2
                   in if frameCount = 0
                      then \<lparr>listener_after = st1, sources_started = started,
                            chunks_taken = chunksScheduled + 1, threw = True\<rparr>
                      else scheduleLoop now
                             (st1\<lparr>nextPlayTime := nextPlayTime st + of_nat frameCount / SAMPLE_RATE\<rparr>)
                             (chunksScheduled + 1)
                             (started @ [(seq, nextPlayTime st)]))
                else
                  \<lparr>listener_after = st, sources_started = started,
                   chunks_taken = chunksScheduled, threw = False\<rparr>)))"
  by pat_completeness auto
termination
  by (relation "measure (\<lambda>(now, st, chunksScheduled, started). maxChunksPerCycle - chunksScheduled)")
     auto

declare scheduleLoop.simps [simp del]

text \<open>Lines 185--186: the delayed flag; \<^verbatim>\<open>nextPlaySeqRef.current || 0\<close>.\<close>

definition updateDelayed :: "listener \<Rightarrow> listener" where
  "updateDelayed st =
     (let delay = latestReceivedSeq st - (case nextPlaySeq st of None \<Rightarrow> 0 | Some p \<Rightarrow> p)
      in st\<lparr>isDelayed := (TARGET_BUFFER_SIZE * 2 < delay)\<rparr>)"

text \<open>Lines 130--186: what a tick does once it is past the buffering phase.\<close>

definition playbackPhase :: "rat \<Rightarrow> listener \<Rightarrow> tick_result" where
  "playbackPhase now st =
     (if underrun now st then returned (st\<lparr>isBuffering := True\<rparr>)
      else
        (let r = scheduleLoop now (driftCorrection now st) 0 []
         in if threw r then r
            else r\<lparr>listener_after := updateDelayed (listener_after r)\<rparr>))"

text \<open>
  \<^verbatim>\<open>scheduleAudio\<close>, one scheduler tick at output-clock reading \<open>now\<close>
  (\<^verbatim>\<open>ctx.currentTime\<close>). Resuming a suspended audio context is left to the platform.
\<close>

definition scheduleAudio :: "rat \<Rightarrow> listener \<Rightarrow> tick_result" where
  "scheduleAudio now st =
     (if \<not> audioContext st then returned st
      else
        (let buffer = audioBuffer st;
             st0 = st\<lparr>bufferStatus := (length buffer, TARGET_BUFFER_SIZE, delaySeconds buffer)\<rparr>
         in case bufferingPhase now st0 of
              None \<Rightarrow> returned st0
            | Some st1 \<Rightarrow> playbackPhase now st1))"

text \<open>\<^verbatim>\<open>goLive\<close>, the manual jump to the live edge, at clock reading \<open>now\<close>.\<close>

definition goLive :: "rat \<Rightarrow> listener \<Rightarrow> listener" where
  "goLive now st =
     (if \<not> audioContext st then st
      else
        (let buffer = audioBuffer st;
             keys = sort (map fst buffer)
         in case keys of
              [] \<Rightarrow> st
            | k0 # ks \<Rightarrow>
                (let latest = last keys;
                     targetStart = max k0 (latest - TARGET_BUFFER_SIZE);
                     buffer' = fold (\<lambda>key b. if key < targetStart then AList.delete key b else b)
                                 keys buffer;
                     currentBufferChunks = length buffer'
                 in st\<lparr>audioBuffer := buffer',
                       nextPlaySeq := Some targetStart,
                       nextPlayTime := now + 5 / 100,
                       isDelayed := False,
                       bufferStatus := (currentBufferChunks, TARGET_BUFFER_SIZE,
                                        of_nat currentBufferChunks / CHUNKS_PER_SECOND)\<rparr>)))"

text \<open>
  Decoding a payload (\<^verbatim>\<open>playAudioData\<close>, lines 255--266). \<open>atob\<close> is the platform's
  base64 decoder: the code units of the binary string, or \<open>None\<close> where it throws.
  Storing a code unit into the \<^verbatim>\<open>Uint8Array\<close> keeps it modulo 256. The
  \<^verbatim>\<open>Int16Array\<close> view reads little-endian pairs and throws RangeError on an odd
  number of bytes.
\<close>

fun int16_view :: "nat list \<Rightarrow> int list option" where
  "int16_view [] = Some []"
| "int16_view [b] = None"
| "int16_view (lo # hi # bs) =
     map_option (\<lambda>vs. wrap16 (int lo + 256 * int hi) # vs) (int16_view bs)"

definition decodeAudio :: "(string \<Rightarrow> nat list option) \<Rightarrow> string \<Rightarrow> block option" where
  "decodeAudio atob base64Data =
     (case atob base64Data of
        None \<Rightarrow> None
      | Some binaryString \<Rightarrow>
          (case int16_view (map (\<lambda>c. c mod 256) binaryString) of
             None \<Rightarrow> None
           | Some int16Array \<Rightarrow> Some (map decode_sample int16Array)))"

text \<open>
  \<^verbatim>\<open>playAudioData\<close>, the handler of an arriving \<^verbatim>\<open>audio_data\<close> message. An
  exception while decoding is caught and logged: the restart reset made before it
  stays, nothing is inserted.
\<close>

definition playAudioData ::
  "(string \<Rightarrow> nat list option) \<Rightarrow> listener \<Rightarrow> string \<Rightarrow> int option \<Rightarrow> listener" where
  "playAudioData atob st base64Data seq =
     (if \<not> audioContext st then st
      else case seq of
        None \<Rightarrow> st
      | Some s \<Rightarrow>
          (let st1 =
                 (if s + 100 < latestReceivedSeq st
                  then st\<lparr>audioBuffer := [], nextPlaySeq := None, isBuffering := True,
                          latestReceivedSeq := 0\<rparr>
                  else st)
           in case decodeAudio atob base64Data of
                None \<Rightarrow> st1
              | Some float32Array \<Rightarrow>
                  st1\<lparr>audioBuffer := AList.update s float32Array (audioBuffer st1),
                      latestReceivedSeq := max (latestReceivedSeq st1) s,
                      scheduler := True\<rparr>))"

section \<open>Session registry\<close>

text \<open>
  \<^verbatim>\<open>MemStorage\<close>: the two \<^verbatim>\<open>Map\<close>s as association lists in insertion order, and
  the participant counter. Dates are clock readings.
\<close>

record Room =
  room_id :: string
  room_hostId :: string
  isActive :: bool
  createdAt :: nat

record Participant =
  p_id :: nat
  p_roomId :: string
  p_clientId :: string
  joinedAt :: nat

record MemStorage =
  rooms :: "(string \<times> Room) list"
  participants :: "(string \<times> Participant) list"
  currentId :: nat

definition newMemStorage :: MemStorage where
  "newMemStorage = \<lparr>rooms = [], participants = [], currentId = 1\<rparr>"

text \<open>
  \<^verbatim>\<open>createRoom\<close> draws room codes until one is unused. The codes that
  \<^verbatim>\<open>generateRoomId\<close> returns, call after call, are the list \<open>draws\<close>; the result is
  \<open>None\<close> when every one of them is taken (the loop has not ended).
\<close>

fun freshRoomId :: "string list \<Rightarrow> (string \<times> Room) list \<Rightarrow> string option" where
  "freshRoomId [] rs = None"
| "freshRoomId (roomId # draws) rs =
     (if map_of rs roomId \<noteq> None then freshRoomId draws rs else Some roomId)"

definition createRoom ::
  "string list \<Rightarrow> nat \<Rightarrow> string \<Rightarrow> MemStorage \<Rightarrow> (Room \<times> MemStorage) option" where
  "createRoom draws now hostId st =
     (case freshRoomId draws (rooms st) of
        None \<Rightarrow> None
      | Some roomId \<Rightarrow>
          (let room = \<lparr>room_id = roomId, room_hostId = hostId, isActive = False,
                       createdAt = now\<rparr>
           in Some (room, st\<lparr>rooms := AList.update roomId room (rooms st)\<rparr>)))"

definition getRoom :: "string \<Rightarrow> MemStorage \<Rightarrow> Room option" where
  "getRoom roomId st = map_of (rooms st) roomId"

definition addListener :: "nat \<Rightarrow> string \<Rightarrow> string \<Rightarrow> MemStorage \<Rightarrow> bool \<times> MemStorage" where
  "addListener now roomId listenerId st =
     (case map_of (rooms st) roomId of
        None \<Rightarrow> (False, st)
      | Some room \<Rightarrow>
          (let participant = \<lparr>p_id = currentId st, p_roomId = roomId,
                              p_clientId = listenerId, joinedAt = now\<rparr>
           in (True, st\<lparr>participants := AList.update listenerId participant (participants st),
                        currentId := currentId st + 1\<rparr>)))"

definition removeListener :: "string \<Rightarrow> string \<Rightarrow> MemStorage \<Rightarrow> bool \<times> MemStorage" where
  "removeListener roomId listenerId st =
     (case map_of (participants st) listenerId of
        None \<Rightarrow> (False, st)
      | Some participant \<Rightarrow>
          (if p_roomId participant = roomId
           then (True, st\<lparr>participants := AList.delete listenerId (participants st)\<rparr>)
           else (False, st)))"

definition deleteRoom :: "string \<Rightarrow> MemStorage \<Rightarrow> bool \<times> MemStorage" where
  "deleteRoom roomId st =
     (let ps = fold (\<lambda>(clientId, participant) acc.
                       if p_roomId participant = roomId then AList.delete clientId acc else acc)
                 (participants st) (participants st)
      in (map_of (rooms st) roomId \<noteq> None,
          st\<lparr>participants := ps, rooms := AList.delete roomId (rooms st)\<rparr>))"

definition getListenerCount :: "string \<Rightarrow> MemStorage \<Rightarrow> nat" where
  "getListenerCount roomId st =
     length (filter (\<lambda>participant. p_roomId participant = roomId) (map snd (participants st)))"

definition setRoomActive :: "string \<Rightarrow> bool \<Rightarrow> MemStorage \<Rightarrow> MemStorage" where
  "setRoomActive roomId active st =
     (case map_of (rooms st) roomId of
        None \<Rightarrow> st
      | Some room \<Rightarrow> st\<lparr>rooms := AList.update roomId (room\<lparr>isActive := active\<rparr>) (rooms st)\<rparr>)"

text \<open>Sequences of registry operations; a run stops where \<^verbatim>\<open>createRoom\<close> does not return.\<close>

datatype registry_op =
    CreateRoom "string list" nat string
  | AddListener nat string string
  | RemoveListener string string
  | DeleteRoom string

fun apply_op :: "registry_op \<Rightarrow> MemStorage \<Rightarrow> MemStorage option" where
  "apply_op (CreateRoom draws now hostId) st = map_option snd (createRoom draws now hostId st)"
| "apply_op (AddListener now roomId listenerId) st = Some (snd (addListener now roomId listenerId st))"
| "apply_op (RemoveListener roomId listenerId) st = Some (snd (removeListener roomId listenerId st))"
| "apply_op (DeleteRoom roomId) st = Some (snd (deleteRoom roomId st))"

fun run_ops :: "registry_op list \<Rightarrow> MemStorage \<Rightarrow> MemStorage option" where
  "run_ops [] st = Some st"
| "run_ops (x # xs) st = (case apply_op x st of None \<Rightarrow> None | Some st' \<Rightarrow> run_ops xs st')"

text \<open>Every membership references a room of the room table.\<close>

definition no_orphans :: "MemStorage \<Rightarrow> bool" where
  "no_orphans st =
     list_all (\<lambda>(clientId, participant). map_of (rooms st) (p_roomId participant) \<noteq> None)
       (participants st)"

section \<open>Relay coordinator: the \<^verbatim>\<open>audio_data\<close> case\<close>

datatype readyState = CONNECTING | OPEN | CLOSING | CLOSED

record ClientConnection =
  ws :: readyState
  conn_clientId :: string
  conn_roomId :: "string option"
  isHost :: bool
  isStreaming :: bool
  lastAudioTime :: nat

datatype OutgoingMessage =
    RoomCreatedMessage string
  | RoomJoinedMessage string bool
  | AudioDataMessage string "int option" "int option"
  | ListenerCountMessage nat
  | HostDisconnectedMessage
  | ErrorMessage string
  | HostStreamingMessage

text \<open>
  An incoming \<^verbatim>\<open>audio_data\<close> message as parsed from JSON: \<open>msg_data\<close> is \<open>None\<close> when
  the \<^verbatim>\<open>data\<close> field is not a string.
\<close>

record IncomingAudioData =
  msg_data :: "string option"
  msg_seq :: "int option"
  msg_timestamp :: "int option"

text \<open>
  The relay: the connection table \<^verbatim>\<open>clients\<close>, the registry, and the log of
  \<^verbatim>\<open>ws.send\<close> calls (recipient and message) in the order they were made.
\<close>

record relay =
  clients :: "(string \<times> ClientConnection) list"
  storage :: MemStorage
  sent :: "(string \<times> OutgoingMessage) list"

definition sendToClient :: "string \<Rightarrow> OutgoingMessage \<Rightarrow> relay \<Rightarrow> relay" where
  "sendToClient clientId message srv =
     (case map_of (clients srv) clientId of
        None \<Rightarrow> srv
      | Some client \<Rightarrow>
          (if ws client = OPEN then srv\<lparr>sent := sent srv @ [(clientId, message)]\<rparr> else srv))"

definition broadcastToListeners :: "string \<Rightarrow> OutgoingMessage \<Rightarrow> relay \<Rightarrow> relay" where
  "broadcastToListeners roomId message srv =
     fold (\<lambda>(clientId, client) s.
             if conn_roomId client = Some roomId \<and> \<not> isHost client
             then sendToClient clientId message s else s)
       (clients srv) srv"

text \<open>
  The \<^verbatim>\<open>audio_data\<close> case of the message handler of connection \<open>clientId\<close>, at
  wall-clock reading \<open>now\<close>. \<^verbatim>\<open>connection\<close> is the object stored in \<^verbatim>\<open>clients\<close>
  under \<open>clientId\<close>; \<^verbatim>\<open>!connection.roomId\<close> holds for \<^verbatim>\<open>null\<close> and for the empty
  string. The registry's promises are already resolved, so the handler runs without
  interleaving.
\<close>

definition on_audio_data :: "nat \<Rightarrow> string \<Rightarrow> IncomingAudioData \<Rightarrow> relay \<Rightarrow> relay" where
  "on_audio_data now clientId message srv =
     (case map_of (clients srv) clientId of
        None \<Rightarrow> srv
      | Some connection \<Rightarrow>
          (case conn_roomId connection of
             None \<Rightarrow> srv
           | Some roomId \<Rightarrow>
               (if \<not> isHost connection \<or> roomId = [] then srv
                else
                  (let srv1 = srv\<lparr>clients :=
                                AList.update clientId (connection\<lparr>lastAudioTime := now\<rparr>)
                                  (clients srv)\<rparr>;
                       srv2 =
                         (if \<not> isStreaming connection
                          then broadcastToListeners roomId HostStreamingMessage
                                 (srv1\<lparr>clients :=
                                         AList.update clientId
                                           (connection\<lparr>lastAudioTime := now, isStreaming := True\<rparr>)
                                           (clients srv1),
                                       storage := setRoomActive roomId True (storage srv1)\<rparr>)
                          else srv1)
                   in case msg_data message of
                        None \<Rightarrow> srv2
                      | Some d \<Rightarrow>
                          (if length d = 0 then srv2
                           else if 5242880 < length d then srv2
                           else broadcastToListeners roomId
                                  (AudioDataMessage d (msg_seq message) (msg_timestamp message))
                                  srv2)))))"

text \<open>The messages a handler added to the log, and those among them for one recipient.\<close>

definition emitted :: "relay \<Rightarrow> relay \<Rightarrow> (string \<times> OutgoingMessage) list" where
  "emitted srv srv' = drop (length (sent srv)) (sent srv')"

definition received_by :: "string \<Rightarrow> (string \<times> OutgoingMessage) list \<Rightarrow> OutgoingMessage list" where
  "received_by clientId msgs = map snd (filter (\<lambda>(recipient, message). recipient = clientId) msgs)"

text \<open>
  The recipients of a broadcast to a room, in table order: the connections whose room
  reference is the room, that are not its source, and whose socket is open.
\<close>

definition listeners_of :: "string \<Rightarrow> relay \<Rightarrow> string list" where
  "listeners_of roomId srv =
     map fst (filter (\<lambda>(clientId, client).
                        conn_roomId client = Some roomId \<and> \<not> isHost client \<and> ws client = OPEN)
                (clients srv))"

section \<open>Scenarios\<close>

text \<open>
  Scenario D of the specification: the listener is playing, its pointer is at 5,
  chunk 5 never arrived and chunks 6 to 10 are buffered.
\<close>

definition scenarioD :: listener where
  "scenarioD =
     \<lparr>audioContext = True,
      audioBuffer = [(6, [0, 0]), (7, [0, 0]), (8, [0, 0]), (9, [0, 0]), (10, [0, 0])],
      nextPlaySeq = Some 5, nextPlayTime = 50, isBuffering = False, latestReceivedSeq = 10,
      hasStartedPlayback = True, scheduler = True, isDelayed = False,
      bufferStatus = (5, 140, 0)\<rparr>"

text \<open>
  Scenario C of the specification: while buffering, chunks 1, 0 and 2 arrived in that
  order, three seconds of audio each.
\<close>

definition scenarioC :: listener where
  "scenarioC =
     \<lparr>audioContext = True,
      audioBuffer = [(1, replicate 288000 0), (0, replicate 288000 0), (2, replicate 288000 0)],
      nextPlaySeq = None, nextPlayTime = 0, isBuffering = True, latestReceivedSeq = 2,
      hasStartedPlayback = False, scheduler = True, isDelayed = False,
      bufferStatus = (0, 140, 0)\<rparr>"

text \<open>
  A listener that joined late: chunk 5 is the only one received so far. And one that
  lags: chunks 300, 0 and 100 are buffered.
\<close>

definition lateJoiner :: listener where
  "lateJoiner =
     \<lparr>audioContext = True, audioBuffer = [(5, [0, 0])],
      nextPlaySeq = None, nextPlayTime = 0, isBuffering = True, latestReceivedSeq = 5,
      hasStartedPlayback = False, scheduler = True, isDelayed = False,
      bufferStatus = (1, 140, 0)\<rparr>"

definition laggingListener :: listener where
  "laggingListener =
     \<lparr>audioContext = True, audioBuffer = [(300, [0, 0]), (0, [0, 0]), (100, [0, 0])],
      nextPlaySeq = Some 0, nextPlayTime = 1, isBuffering = False, latestReceivedSeq = 300,
      hasStartedPlayback = True, scheduler = True, isDelayed = True,
      bufferStatus = (3, 140, 0)\<rparr>"


text \<open>
  A relay with one room: its source \<open>h\<close> has not streamed yet, listener \<open>l1\<close> is
  connected, listener \<open>l2\<close> is closing its socket, \<open>l3\<close> has joined no room. And the
  same relay after the source's first chunk.
\<close>

definition roomABC :: relay where
  "roomABC =
     \<lparr>clients =
        [(''h'', \<lparr>ws = OPEN, conn_clientId = ''h'', conn_roomId = Some ''ABC234'',
                  isHost = True, isStreaming = False, lastAudioTime = 0\<rparr>),
         (''l1'', \<lparr>ws = OPEN, conn_clientId = ''l1'', conn_roomId = Some ''ABC234'',
                   isHost = False, isStreaming = False, lastAudioTime = 0\<rparr>),
         (''l2'', \<lparr>ws = CLOSING, conn_clientId = ''l2'', conn_roomId = Some ''ABC234'',
                   isHost = False, isStreaming = False, lastAudioTime = 0\<rparr>),
         (''l3'', \<lparr>ws = OPEN, conn_clientId = ''l3'', conn_roomId = None,
                   isHost = False, isStreaming = False, lastAudioTime = 0\<rparr>)],
      storage =
        \<lparr>rooms = [(''ABC234'', \<lparr>room_id = ''ABC234'', room_hostId = ''h'', isActive = False,
                                  createdAt = 0\<rparr>)],
         participants =
           [(''l1'', \<lparr>p_id = 1, p_roomId = ''ABC234'', p_clientId = ''l1'', joinedAt = 1\<rparr>),
            (''l2'', \<lparr>p_id = 2, p_roomId = ''ABC234'', p_clientId = ''l2'', joinedAt = 2\<rparr>)],
         currentId = 3\<rparr>,
      sent = [(''h'', RoomCreatedMessage ''ABC234''), (''l1'', RoomJoinedMessage ''ABC234'' False)]\<rparr>"

definition liveRoomABC :: relay where
  "liveRoomABC =
     on_audio_data 7 ''h''
       \<lparr>msg_data = Some ''AAAA'', msg_seq = Some 0, msg_timestamp = Some 10\<rparr> roomABC"

section \<open>Codec properties\<close>

lemma wrap16_id:
  assumes "- 32768 \<le> n" "n \<le> 32767"
  shows "wrap16 n = n"
proof (cases "n < 0")
  case True
  with assms(1) have "(n + 65536) mod 65536 = n + 65536"
    by (intro mod_pos_pos_trivial) auto
  then have "n mod 65536 = n + 65536" by simp
  with True assms(1) show ?thesis by (simp add: wrap16_def Let_def)
next
  case False
  with assms(2) have "n mod 65536 = n" by (intro mod_pos_pos_trivial) auto
  with assms(2) show ?thesis by (simp add: wrap16_def Let_def)
qed


lemma js_trunc_bounds:
  assumes "- 32768 \<le> q" "q \<le> 32767"
  shows "- 32768 \<le> js_trunc q \<and> js_trunc q \<le> 32767"
proof (cases "q < 0")
  case True
  have "- q \<le> 32768" using assms(1) by simp
  then have "\<lfloor>- q\<rfloor> \<le> 32768" by (simp add: floor_le_iff)
  moreover have "0 \<le> \<lfloor>- q\<rfloor>" using True by simp
  moreover have "js_trunc q = - \<lfloor>- q\<rfloor>" using True by (simp add: js_trunc_def)
  ultimately show ?thesis by linarith
next
  case False
  have "\<lfloor>q\<rfloor> \<le> 32767" using assms(2) by (simp add: floor_le_iff)
  moreover have "0 \<le> \<lfloor>q\<rfloor>" using False by simp
  moreover have "js_trunc q = \<lfloor>q\<rfloor>" using False by (simp add: js_trunc_def)
  ultimately show ?thesis by linarith
qed

lemma clamp_scaled_bounds:
  fixes q :: rat
  defines "s \<equiv> max (- 1) (min 1 q)"
  shows "- 32768 \<le> (if s < 0 then s * 32768 else s * 32767)
       \<and> (if s < 0 then s * 32768 else s * 32767) \<le> 32767"
proof -
  have "- 1 \<le> s" "s \<le> 1" by (simp_all add: s_def)
  then show ?thesis by auto
qed

lemma quantize_sample_Num:
  "quantize_sample (Num q) =
     ToInt16 (Num (let s = max (- 1) (min 1 q) in if s < 0 then s * 32768 else s * 32767))"
  by (auto simp: quantize_sample_def Let_def min_def max_def)

text \<open>
  Claim C9. For every input sample the quantiser clamps to \<open>[-1, 1]\<close> and scales by
  32768 below zero and by 32767 otherwise; the scaled value needs no wrap-around when
  stored as a 16-bit integer (the stored value is its truncation), the result lies in
  \<open>[-32768, 32767]\<close>, and \<open>+1\<close> and \<open>-1\<close> map to 32767 and -32768. The infinities
  clamp to the same ends and NaN is stored as 0.
\<close>

theorem quantize_sample_int16_range:
  "- 32768 \<le> quantize_sample x \<and> quantize_sample x \<le> 32767
   \<and> quantize_sample (Num q) =
       js_trunc (let s = max (- 1) (min 1 q) in if s < 0 then s * 32768 else s * 32767)
   \<and> - 1 \<le> max (- 1) (min 1 q) \<and> max (- 1) (min 1 q) \<le> 1
   \<and> quantize_sample (Num 1) = 32767
   \<and> quantize_sample (Num (- 1)) = - 32768
   \<and> quantize_sample PosInfinity = 32767
   \<and> quantize_sample NegInfinity = - 32768
   \<and> quantize_sample NaN = 0"
proof -
  have fin: "quantize_sample (Num r) =
       js_trunc (let s = max (- 1) (min 1 r) in if s < 0 then s * 32768 else s * 32767)
     \<and> - 32768 \<le> quantize_sample (Num r) \<and> quantize_sample (Num r) \<le> 32767" for r
  proof -
    let ?y = "let s = max (- 1) (min 1 r) in if s < 0 then s * 32768 else s * 32767"
    have b: "- 32768 \<le> ?y \<and> ?y \<le> 32767"
      using clamp_scaled_bounds [of r] by (simp add: Let_def)
    then have t: "- 32768 \<le> js_trunc ?y \<and> js_trunc ?y \<le> 32767"
      using js_trunc_bounds [of ?y] by blast
    then have "wrap16 (js_trunc ?y) = js_trunc ?y"
      using wrap16_id by blast
    then have "quantize_sample (Num r) = js_trunc ?y"
      by (simp add: quantize_sample_Num)
    with t show ?thesis by simp
  qed
  have one: "quantize_sample (Num 1) = 32767"
    using fin [of 1] by (simp add: js_trunc_def)
  have mone: "quantize_sample (Num (- 1)) = - 32768"
    using fin [of "- 1"] by (simp add: js_trunc_def)
  have pinf: "quantize_sample PosInfinity = 32767"
    using one by (simp add: quantize_sample_def)
  have ninf: "quantize_sample NegInfinity = - 32768"
    using mone by (simp add: quantize_sample_def)
  have nan: "quantize_sample NaN = 0"
    by (simp add: quantize_sample_def)
  have rng: "- 32768 \<le> quantize_sample x \<and> quantize_sample x \<le> 32767"
  proof (cases x)
    case (Num r)
    then show ?thesis using fin [of r] by blast
  next
    case PosInfinity
    then show ?thesis using pinf by simp
  next
    case NegInfinity
    then show ?thesis using ninf by simp
  next
    case NaN
    then show ?thesis using nan by simp
  qed
  have cl: "- 1 \<le> max (- 1) (min 1 q) \<and> max (- 1) (min 1 q) \<le> 1"
    by simp
  from rng fin [of q] cl one mone pinf ninf nan show ?thesis by blast
qed



section \<open>Registry properties\<close>

text \<open>
  A fold that deletes the keys of the selected elements is a filter. Both
  \<^verbatim>\<open>deleteRoom\<close> and \<^verbatim>\<open>goLive\<close> run such a loop.
\<close>


lemma fold_delete_filter:
  "fold (\<lambda>x acc. if P x then AList.delete (key x) acc else acc) xs al
   = filter (\<lambda>(k, v). \<not> (\<exists>x \<in> set xs. P x \<and> key x = k)) al"
proof (induction xs arbitrary: al)
  case Nil
  show ?case by simp
next
  case (Cons x xs)
  show ?case
  proof (cases "P x")
    case True
    have "filter (\<lambda>(k, v). \<not> (\<exists>y \<in> set xs. P y \<and> key y = k)) (AList.delete (key x) al)
        = filter (\<lambda>(k, v). \<not> (\<exists>y \<in> set (x # xs). P y \<and> key y = k)) al"
      using True by (auto simp: AList.delete_eq intro!: filter_cong)
    with True Cons.IH [of "AList.delete (key x) al"] show ?thesis by simp
  next
    case False
    have "filter (\<lambda>(k, v). \<not> (\<exists>y \<in> set xs. P y \<and> key y = k)) al
        = filter (\<lambda>(k, v). \<not> (\<exists>y \<in> set (x # xs). P y \<and> key y = k)) al"
      using False by (auto intro!: filter_cong)
    with False Cons.IH [of al] show ?thesis by simp
  qed
qed

lemma set_update_subset: "set (AList.update k v al) \<subseteq> insert (k, v) (set al)"
  by (induction al) auto

lemma deleteRoom_participants:
  "participants (snd (deleteRoom roomId st))
   = filter (\<lambda>(k, v). \<not> (\<exists>x \<in> set (participants st). p_roomId (snd x) = roomId \<and> fst x = k))
       (participants st)"
  using fold_delete_filter [of "\<lambda>x. p_roomId (snd x) = roomId" fst "participants st" "participants st"]
  by (simp add: deleteRoom_def Let_def split_def)

lemma deleteRoom_no_member:
  "(c, p) \<in> set (participants (snd (deleteRoom roomId st))) \<Longrightarrow>
     p_roomId p \<noteq> roomId \<and> (c, p) \<in> set (participants st)"
  by (auto simp: deleteRoom_participants)

lemma deleteRoom_rooms: "rooms (snd (deleteRoom roomId st)) = AList.delete roomId (rooms st)"
  by (simp add: deleteRoom_def Let_def)

lemma no_orphans_iff:
  "no_orphans st \<longleftrightarrow>
     (\<forall>c p. (c, p) \<in> set (participants st) \<longrightarrow> map_of (rooms st) (p_roomId p) \<noteq> None)"
  by (auto simp: no_orphans_def list_all_iff)

lemma no_orphans_createRoom:
  assumes "no_orphans st" "createRoom draws now hostId st = Some (room, st')"
  shows "no_orphans st'"
  using assms
  by (auto simp: no_orphans_iff createRoom_def Let_def update_conv' split: option.splits)

lemma no_orphans_addListener:
  assumes "no_orphans st"
  shows "no_orphans (snd (addListener now roomId listenerId st))"
proof (cases "map_of (rooms st) roomId")
  case None
  with assms show ?thesis by (simp add: addListener_def)
next
  case (Some room)
  show ?thesis
    unfolding no_orphans_iff
  proof (intro allI impI)
    fix c p
    assume "(c, p) \<in> set (participants (snd (addListener now roomId listenerId st)))"
    then have "(c, p) \<in> insert (listenerId, \<lparr>p_id = currentId st, p_roomId = roomId,
                 p_clientId = listenerId, joinedAt = now\<rparr>) (set (participants st))"
      using Some set_update_subset by (fastforce simp: addListener_def Let_def)
    then show "map_of (rooms (snd (addListener now roomId listenerId st))) (p_roomId p) \<noteq> None"
      using Some assms by (auto simp: addListener_def Let_def no_orphans_iff)
  qed
qed

lemma no_orphans_removeListener:
  assumes "no_orphans st"
  shows "no_orphans (snd (removeListener roomId listenerId st))"
  using assms
  by (auto simp: no_orphans_iff removeListener_def AList.delete_eq split: option.splits)

lemma no_orphans_deleteRoom:
  assumes "no_orphans st"
  shows "no_orphans (snd (deleteRoom roomId st))"
  unfolding no_orphans_iff
proof (intro allI impI)
  fix c p
  assume "(c, p) \<in> set (participants (snd (deleteRoom roomId st)))"
  then have "p_roomId p \<noteq> roomId" "(c, p) \<in> set (participants st)"
    using deleteRoom_no_member by blast+
  with assms show "map_of (rooms (snd (deleteRoom roomId st))) (p_roomId p) \<noteq> None"
    by (simp add: deleteRoom_rooms no_orphans_iff)
qed

lemma no_orphans_apply_op:
  assumes "no_orphans st" "apply_op x st = Some st'"
  shows "no_orphans st'"
proof (cases x)
  case (CreateRoom draws now hostId)
  with assms(2) obtain room where "createRoom draws now hostId st = Some (room, st')"
    by auto
  with assms(1) show ?thesis by (rule no_orphans_createRoom)
next
  case (AddListener now roomId listenerId)
  with assms show ?thesis using no_orphans_addListener by auto
next
  case (RemoveListener roomId listenerId)
  with assms show ?thesis using no_orphans_removeListener by auto
next
  case (DeleteRoom roomId)
  with assms show ?thesis using no_orphans_deleteRoom by auto
qed

lemma no_orphans_run_ops:
  "no_orphans st \<Longrightarrow> run_ops xs st = Some st' \<Longrightarrow> no_orphans st'"
proof (induction xs arbitrary: st)
  case Nil
  then show ?case by simp
next
  case (Cons x xs)
  then show ?case
    by (auto split: option.splits dest: no_orphans_apply_op)
qed

lemma no_orphans_new: "no_orphans newMemStorage"
  by (simp add: no_orphans_def newMemStorage_def)

text \<open>
  Claim C8. After any sequence of \<^verbatim>\<open>createRoom\<close>, \<^verbatim>\<open>addListener\<close>,
  \<^verbatim>\<open>removeListener\<close> and \<^verbatim>\<open>deleteRoom\<close> from the empty registry, every membership
  references a room of the room table. \<^verbatim>\<open>addListener\<close> returns whether the room
  exists, changes nothing when it does not and records the membership when it does;
  after \<^verbatim>\<open>deleteRoom\<close> no membership names the deleted room and the room is gone.
\<close>

theorem registry_no_orphans:
  assumes "run_ops xs newMemStorage = Some st"
  shows "no_orphans st
       \<and> fst (addListener now roomId listenerId st) = (map_of (rooms st) roomId \<noteq> None)
       \<and> (if map_of (rooms st) roomId = None
          then snd (addListener now roomId listenerId st) = st
          else map_of (participants (snd (addListener now roomId listenerId st))) listenerId
               = Some \<lparr>p_id = currentId st, p_roomId = roomId, p_clientId = listenerId,
                       joinedAt = now\<rparr>)
       \<and> list_all (\<lambda>(clientId, participant). p_roomId participant \<noteq> roomId)
           (participants (snd (deleteRoom roomId st)))
       \<and> map_of (rooms (snd (deleteRoom roomId st))) roomId = None
       \<and> no_orphans (snd (deleteRoom roomId st))"
proof -
  have inv: "no_orphans st"
    using no_orphans_new assms by (rule no_orphans_run_ops)
  have add1: "fst (addListener now roomId listenerId st) = (map_of (rooms st) roomId \<noteq> None)"
    by (simp add: addListener_def Let_def split: option.splits)
  have add2: "(if map_of (rooms st) roomId = None
          then snd (addListener now roomId listenerId st) = st
          else map_of (participants (snd (addListener now roomId listenerId st))) listenerId
               = Some \<lparr>p_id = currentId st, p_roomId = roomId, p_clientId = listenerId,
                       joinedAt = now\<rparr>)"
    by (auto simp: addListener_def Let_def update_conv' split: option.splits)
  have del1: "list_all (\<lambda>(clientId, participant). p_roomId participant \<noteq> roomId)
           (participants (snd (deleteRoom roomId st)))"
    using deleteRoom_no_member [of _ _ roomId st] by (auto simp: list_all_iff)
  have del2: "map_of (rooms (snd (deleteRoom roomId st))) roomId = None"
    by (simp add: deleteRoom_rooms delete_conv')
  have del3: "no_orphans (snd (deleteRoom roomId st))"
    using inv by (rule no_orphans_deleteRoom)
  from inv add1 add2 del1 del2 del3 show ?thesis by blast
qed

text \<open>Two rooms, three join attempts (one for a room that does not exist), one room deleted.\<close>

theorem registry_no_orphans_witness:
  "run_ops [CreateRoom [''ABC234''] 0 ''h1'', AddListener 1 ''ABC234'' ''l1'',
            CreateRoom [''ABC234'', ''XYZ789''] 2 ''h2'', AddListener 3 ''XYZ789'' ''l2'',
            AddListener 4 ''QQQQQQ'' ''l3'', DeleteRoom ''ABC234'']
     newMemStorage
   = Some \<lparr>rooms = [(''XYZ789'', \<lparr>room_id = ''XYZ789'', room_hostId = ''h2'', isActive = False,
                                   createdAt = 2\<rparr>)],
           participants = [(''l2'', \<lparr>p_id = 2, p_roomId = ''XYZ789'', p_clientId = ''l2'',
                                    joinedAt = 3\<rparr>)],
           currentId = 3\<rparr>
   \<and> no_orphans \<lparr>rooms = [(''XYZ789'', \<lparr>room_id = ''XYZ789'', room_hostId = ''h2'',
                                       isActive = False, createdAt = 2\<rparr>)],
           participants = [(''l2'', \<lparr>p_id = 2, p_roomId = ''XYZ789'', p_clientId = ''l2'',
                                    joinedAt = 3\<rparr>)],
           currentId = 3\<rparr>"
proof -
  have r: "run_ops [CreateRoom [''ABC234''] 0 ''h1'', AddListener 1 ''ABC234'' ''l1'',
            CreateRoom [''ABC234'', ''XYZ789''] 2 ''h2'', AddListener 3 ''XYZ789'' ''l2'',
            AddListener 4 ''QQQQQQ'' ''l3'', DeleteRoom ''ABC234'']
     newMemStorage
   = Some \<lparr>rooms = [(''XYZ789'', \<lparr>room_id = ''XYZ789'', room_hostId = ''h2'', isActive = False,
                                   createdAt = 2\<rparr>)],
           participants = [(''l2'', \<lparr>p_id = 2, p_roomId = ''XYZ789'', p_clientId = ''l2'',
                                    joinedAt = 3\<rparr>)],
           currentId = 3\<rparr>"
    by (simp add: newMemStorage_def createRoom_def addListener_def deleteRoom_def Let_def)
  from registry_no_orphans [OF r] r show ?thesis by blast
qed

section \<open>Listener properties\<close>

text \<open>
  Claim C2. When a chunk with sequence number \<open>s\<close> arrives and decodes: if the
  latest-received counter exceeds \<open>s + 100\<close> the handler clears the buffer, unsets the
  pointer, re-enters buffering and resets the counter to 0 first; in both cases it then
  stores the decoded block under \<open>s\<close> and raises the counter to the maximum of its
  value and \<open>s\<close>. Without a restart every buffered sequence number stays buffered.
\<close>

theorem playAudioData_arrival:
  assumes "audioContext st" "decodeAudio atob base64Data = Some float32Array"
  shows "playAudioData atob st base64Data (Some s) =
           (if s + 100 < latestReceivedSeq st
            then st\<lparr>audioBuffer := [(s, float32Array)], nextPlaySeq := None,
                    isBuffering := True, latestReceivedSeq := max 0 s, scheduler := True\<rparr>
            else st\<lparr>audioBuffer := AList.update s float32Array (audioBuffer st),
                    latestReceivedSeq := max (latestReceivedSeq st) s, scheduler := True\<rparr>)
       \<and> map_of (audioBuffer (playAudioData atob st base64Data (Some s))) =
           (if s + 100 < latestReceivedSeq st then [s \<mapsto> float32Array]
            else (map_of (audioBuffer st))(s \<mapsto> float32Array))
       \<and> (s + 100 < latestReceivedSeq st
          \<or> fst ` set (audioBuffer st)
              \<subseteq> fst ` set (audioBuffer (playAudioData atob st base64Data (Some s))))"
  using assms by (auto simp: playAudioData_def Let_def update_conv' dom_update)

text \<open>A restart: the counter is at 500 when sequence number 0 arrives.\<close>

theorem playAudioData_arrival_witness:
  "audioContext \<lparr>audioContext = True, audioBuffer = [(499, [0, 0])], nextPlaySeq = Some 499,
      nextPlayTime = 7, isBuffering = False, latestReceivedSeq = 500,
      hasStartedPlayback = True, scheduler = True, isDelayed = False,
      bufferStatus = (1, 140, 0)\<rparr>
   \<and> decodeAudio (\<lambda>payload. Some [0, 128]) ''AIA='' = Some [- 1]
   \<and> playAudioData (\<lambda>payload. Some [0, 128])
        \<lparr>audioContext = True, audioBuffer = [(499, [0, 0])], nextPlaySeq = Some 499,
         nextPlayTime = 7, isBuffering = False, latestReceivedSeq = 500,
         hasStartedPlayback = True, scheduler = True, isDelayed = False,
         bufferStatus = (1, 140, 0)\<rparr> ''AIA='' (Some 0)
     = \<lparr>audioContext = True, audioBuffer = [(0, [- 1])], nextPlaySeq = None,
         nextPlayTime = 7, isBuffering = True, latestReceivedSeq = 0,
         hasStartedPlayback = True, scheduler = True, isDelayed = False,
         bufferStatus = (1, 140, 0)\<rparr>"
proof -
  let ?st = "\<lparr>audioContext = True, audioBuffer = [(499, [0, 0])], nextPlaySeq = Some 499,
      nextPlayTime = 7, isBuffering = False, latestReceivedSeq = 500,
      hasStartedPlayback = True, scheduler = True, isDelayed = False,
      bufferStatus = (1, 140 :: int, 0 :: rat)\<rparr>"
  have h1: "audioContext ?st" by simp
  have h2: "decodeAudio (\<lambda>payload. Some [0, 128]) ''AIA='' = Some [- 1]"
    by (simp add: decodeAudio_def wrap16_def decode_sample_def)
  from playAudioData_arrival [OF h1 h2, of 0]
  have "playAudioData (\<lambda>payload. Some [0, 128]) ?st ''AIA='' (Some 0)
     = \<lparr>audioContext = True, audioBuffer = [(0, [- 1])], nextPlaySeq = None,
         nextPlayTime = 7, isBuffering = True, latestReceivedSeq = 0,
         hasStartedPlayback = True, scheduler = True, isDelayed = False,
         bufferStatus = (1, 140, 0)\<rparr>"
    by simp
  with h1 h2 show ?thesis by blast
qed

text \<open>
  Claim C4. A tick in the playing state whose pointer is set, not buffered, and whose
  play time lies before the clock re-enters buffering and returns: nothing is
  scheduled, and pointer, play time and buffer are as before.
\<close>

theorem underrun_rebuffers:
  assumes "audioContext st" "\<not> isBuffering st" "nextPlaySeq st = Some p"
    "map_of (audioBuffer st) p = None" "nextPlayTime st < now"
  shows "scheduleAudio now st =
           returned (st\<lparr>bufferStatus := (length (audioBuffer st), TARGET_BUFFER_SIZE,
                                         delaySeconds (audioBuffer st)),
                        isBuffering := True\<rparr>)
       \<and> isBuffering (listener_after (scheduleAudio now st))
       \<and> sources_started (scheduleAudio now st) = []
       \<and> \<not> threw (scheduleAudio now st)
       \<and> nextPlaySeq (listener_after (scheduleAudio now st)) = Some p
       \<and> nextPlayTime (listener_after (scheduleAudio now st)) = nextPlayTime st
       \<and> audioBuffer (listener_after (scheduleAudio now st)) = audioBuffer st"
  using assms
  by (simp add: scheduleAudio_def Let_def bufferingPhase_def playbackPhase_def underrun_def
      returned_def)

text \<open>Scenario D at clock reading 51: chunks 6 to 10 stay buffered.\<close>

theorem underrun_rebuffers_witness:
  "audioContext scenarioD \<and> \<not> isBuffering scenarioD \<and> nextPlaySeq scenarioD = Some 5
   \<and> map_of (audioBuffer scenarioD) 5 = None \<and> nextPlayTime scenarioD < 51
   \<and> map fst (audioBuffer scenarioD) = [6, 7, 8, 9, 10]
   \<and> isBuffering (listener_after (scheduleAudio 51 scenarioD))
   \<and> sources_started (scheduleAudio 51 scenarioD) = []
   \<and> nextPlaySeq (listener_after (scheduleAudio 51 scenarioD)) = Some 5
   \<and> audioBuffer (listener_after (scheduleAudio 51 scenarioD)) = audioBuffer scenarioD"
proof -
  have h: "audioContext scenarioD" "\<not> isBuffering scenarioD" "nextPlaySeq scenarioD = Some 5"
    "map_of (audioBuffer scenarioD) 5 = None" "nextPlayTime scenarioD < 51"
    by (simp_all add: scenarioD_def)
  have b: "map fst (audioBuffer scenarioD) = [6, 7, 8, 9, 10]"
    by (simp add: scenarioD_def)
  from underrun_rebuffers [OF h] b h show ?thesis by blast
qed

lemma TARGET_BUFFER_SIZE_140: "TARGET_BUFFER_SIZE = 140"
proof -
  have "CHUNKS_PER_SECOND * TARGET_DELAY_SECONDS = 140 + 5 / 8"
    by (simp add: CHUNKS_PER_SECOND_def TARGET_DELAY_SECONDS_def SAMPLE_RATE_def BUFFER_SIZE_def)
  then show ?thesis
    unfolding TARGET_BUFFER_SIZE_def by (simp add: floor_eq_iff)
qed

lemma delaySeconds_sum:
  "delaySeconds buffer
   = (\<Sum>chunk\<leftarrow>map snd buffer. (of_nat (length chunk) / 2) / 48000)"
proof (induction buffer)
  case Nil
  show ?case by (simp add: delaySeconds_def totalSamples_def)
next
  case (Cons x buffer)
  have "delaySeconds (x # buffer) = (of_nat (length (snd x)) / 2) / 48000 + delaySeconds buffer"
    by (simp add: delaySeconds_def totalSamples_def SAMPLE_RATE_def add_divide_distrib)
  with Cons show ?case by simp
qed

lemma delaySeconds_Nil: "delaySeconds [] = 0"
  by (simp add: delaySeconds_def totalSamples_def)

lemma sort_head_Min:
  assumes "sort xs = k # ks"
  shows "k = Min (set xs)"
proof -
  have "sorted (sort xs)" by simp
  with assms have s: "sorted (k # ks)" by simp
  have "set (sort xs) = set xs" by simp
  with assms have e: "set xs = insert k (set ks)" by simp
  have "Min (insert k (set ks)) = k"
    using s by (intro Min_eqI) auto
  with e show ?thesis by simp
qed

text \<open>
  The three ways one round of the scheduling loop can go, and induction over them.
\<close>

lemma scheduleLoop_stop:
  assumes "case nextPlaySeq st of
             None \<Rightarrow> True
           | Some p \<Rightarrow> map_of (audioBuffer st) p = None
                       \<or> \<not> nextPlayTime st < now + SCHEDULE_AHEAD_TIME
                       \<or> \<not> n < maxChunksPerCycle"
  shows "scheduleLoop now st n acc =
           \<lparr>listener_after = st, sources_started = acc, chunks_taken = n, threw = False\<rparr>"
  using assms by (subst scheduleLoop.simps) (auto split: option.splits)

lemma scheduleLoop_throw:
  assumes "nextPlaySeq st = Some p" "map_of (audioBuffer st) p = Some samples"
    "nextPlayTime st < now + SCHEDULE_AHEAD_TIME" "n < maxChunksPerCycle"
    "length samples div 2 = 0"
  shows "scheduleLoop now st n acc =
           \<lparr>listener_after = st\<lparr>audioBuffer := AList.delete p (audioBuffer st),
                                  nextPlaySeq := Some (p + 1)\<rparr>,
            sources_started = acc, chunks_taken = n + 1, threw = True\<rparr>"
  using assms by (subst scheduleLoop.simps) (simp add: Let_def)

lemma scheduleLoop_step:
  assumes "nextPlaySeq st = Some p" "map_of (audioBuffer st) p = Some samples"
    "nextPlayTime st < now + SCHEDULE_AHEAD_TIME" "n < maxChunksPerCycle"
    "length samples div 2 \<noteq> 0"
  shows "scheduleLoop now st n acc =
           scheduleLoop now
             (st\<lparr>audioBuffer := AList.delete p (audioBuffer st), nextPlaySeq := Some (p + 1),
                 nextPlayTime := nextPlayTime st + of_nat (length samples div 2) / SAMPLE_RATE\<rparr>)
             (n + 1) (acc @ [(p, nextPlayTime st)])"
  using assms by (subst scheduleLoop.simps) (simp add: Let_def)

lemma scheduleLoop_induct3 [case_names stop throw step]:
  assumes stop: "\<And>st n acc.
      scheduleLoop now st n acc =
        \<lparr>listener_after = st, sources_started = acc, chunks_taken = n, threw = False\<rparr> \<Longrightarrow>
      (case nextPlaySeq st of
         None \<Rightarrow> True
       | Some p \<Rightarrow> map_of (audioBuffer st) p = None
                   \<or> \<not> nextPlayTime st < now + SCHEDULE_AHEAD_TIME
                   \<or> \<not> n < maxChunksPerCycle) \<Longrightarrow>
      P st n acc"
    and throw: "\<And>st n acc p samples.
      nextPlaySeq st = Some p \<Longrightarrow> map_of (audioBuffer st) p = Some samples \<Longrightarrow>
      nextPlayTime st < now + SCHEDULE_AHEAD_TIME \<Longrightarrow> n < maxChunksPerCycle \<Longrightarrow>
      length samples div 2 = 0 \<Longrightarrow>
      scheduleLoop now st n acc =
        \<lparr>listener_after = st\<lparr>audioBuffer := AList.delete p (audioBuffer st),
                               nextPlaySeq := Some (p + 1)\<rparr>,
         sources_started = acc, chunks_taken = n + 1, threw = True\<rparr> \<Longrightarrow>
      P st n acc"
    and step: "\<And>st n acc p samples.
      nextPlaySeq st = Some p \<Longrightarrow> map_of (audioBuffer st) p = Some samples \<Longrightarrow>
      nextPlayTime st < now + SCHEDULE_AHEAD_TIME \<Longrightarrow> n < maxChunksPerCycle \<Longrightarrow>
      length samples div 2 \<noteq> 0 \<Longrightarrow>
      scheduleLoop now st n acc =
        scheduleLoop now
          (st\<lparr>audioBuffer := AList.delete p (audioBuffer st), nextPlaySeq := Some (p + 1),
              nextPlayTime := nextPlayTime st + of_nat (length samples div 2) / SAMPLE_RATE\<rparr>)
          (n + 1) (acc @ [(p, nextPlayTime st)]) \<Longrightarrow>
      P (st\<lparr>audioBuffer := AList.delete p (audioBuffer st), nextPlaySeq := Some (p + 1),
            nextPlayTime := nextPlayTime st + of_nat (length samples div 2) / SAMPLE_RATE\<rparr>)
        (n + 1) (acc @ [(p, nextPlayTime st)]) \<Longrightarrow>
      P st n acc"
  shows "P st n acc"
proof -
  have "now' = now \<longrightarrow> P st n acc" for now'
  proof (induction now' st n acc rule: scheduleLoop.induct)
    case (1 now' st n acc)
    show ?case
    proof
      assume eq: "now' = now"
      show "P st n acc"
      proof (cases "nextPlaySeq st")
        case None
        then show ?thesis
          using stop [of st n acc] scheduleLoop_stop [of st now n acc] by simp
      next
        case (Some p)
        note ptr = this
        show ?thesis
        proof (cases "map_of (audioBuffer st) p")
          case None
          with ptr show ?thesis
            using stop [of st n acc] scheduleLoop_stop [of st now n acc] by simp
        next
          case (Some samples)
          note smp = this
          show ?thesis
          proof (cases "nextPlayTime st < now + SCHEDULE_AHEAD_TIME \<and> n < maxChunksPerCycle")
            case False
            with ptr smp show ?thesis
              using stop [of st n acc] scheduleLoop_stop [of st now n acc] by auto
          next
            case True
            then have c: "nextPlayTime st < now + SCHEDULE_AHEAD_TIME" "n < maxChunksPerCycle"
              by simp_all
            show ?thesis
            proof (cases "length samples div 2 = 0")
              case True
              from throw [OF ptr smp c True scheduleLoop_throw [OF ptr smp c True]]
              show ?thesis .
            next
              case False
              have c': "nextPlayTime st < now' + SCHEDULE_AHEAD_TIME \<and> n < maxChunksPerCycle"
                using c eq by simp
              from "1" [OF ptr smp c' refl refl False] eq
              have "P (st\<lparr>audioBuffer := AList.delete p (audioBuffer st),
                          nextPlaySeq := Some (p + 1),
                          nextPlayTime := nextPlayTime st
                            + of_nat (length samples div 2) / SAMPLE_RATE\<rparr>)
                      (n + 1) (acc @ [(p, nextPlayTime st)])"
                by simp
              with step [OF ptr smp c False scheduleLoop_step [OF ptr smp c False]]
              show ?thesis .
            qed
          qed
        qed
      qed
    qed
  qed
  then show ?thesis by simp
qed

lemma scheduleLoop_isBuffering:
  "isBuffering (listener_after (scheduleLoop now st n acc)) = isBuffering st"
  by (induction st n acc rule: scheduleLoop_induct3 [where now = now]) simp_all

lemma scheduleLoop_started_prefix:
  "\<exists>rest. sources_started (scheduleLoop now st n acc) = acc @ rest"
  by (induction st n acc rule: scheduleLoop_induct3 [where now = now]) auto

lemma scheduleLoop_first:
  "sources_started (scheduleLoop now st n []) = []
   \<or> (case nextPlaySeq st of
         None \<Rightarrow> False
       | Some p \<Rightarrow> hd (sources_started (scheduleLoop now st n [])) = (p, nextPlayTime st))"
proof (cases "nextPlaySeq st")
  case None
  then show ?thesis by (subst scheduleLoop.simps) simp
next
  case (Some p)
  show ?thesis
  proof (cases "map_of (audioBuffer st) p")
    case None
    with Some show ?thesis by (subst scheduleLoop.simps) simp
  next
    case (Some samples)
    note smp = this
    show ?thesis
    proof (cases "nextPlayTime st < now + SCHEDULE_AHEAD_TIME \<and> n < maxChunksPerCycle
                  \<and> length samples div 2 \<noteq> 0")
      case False
      with \<open>nextPlaySeq st = Some p\<close> smp show ?thesis
        by (subst scheduleLoop.simps) (auto simp: Let_def)
    next
      case True
      let ?st' = "st\<lparr>audioBuffer := AList.delete p (audioBuffer st), nextPlaySeq := Some (p + 1),
                      nextPlayTime := nextPlayTime st + of_nat (length samples div 2) / SAMPLE_RATE\<rparr>"
      have "scheduleLoop now st n [] = scheduleLoop now ?st' (n + 1) [(p, nextPlayTime st)]"
        using True \<open>nextPlaySeq st = Some p\<close> smp
        by (subst scheduleLoop.simps) (simp add: Let_def)
      moreover obtain rest where
        "sources_started (scheduleLoop now ?st' (n + 1) [(p, nextPlayTime st)])
         = [(p, nextPlayTime st)] @ rest"
        using scheduleLoop_started_prefix by blast
      ultimately show ?thesis using \<open>nextPlaySeq st = Some p\<close> by simp
    qed
  qed
qed

lemma startPlayback_fields:
  "isBuffering (startPlayback now st) = False"
  "audioBuffer (startPlayback now st) = audioBuffer st"
  "latestReceivedSeq (startPlayback now st) = latestReceivedSeq st"
  "audioContext (startPlayback now st) = audioContext st"
  "nextPlayTime (startPlayback now st) = max (now + 2 / 10) (nextPlayTime st)"
  by (simp_all add: startPlayback_def Let_def split: list.splits option.splits)

lemma startPlayback_pointer:
  assumes "audioBuffer st \<noteq> []"
  shows "nextPlaySeq (startPlayback now st) =
     (if (case nextPlaySeq st of None \<Rightarrow> True | Some p \<Rightarrow> p \<notin> fst ` set (audioBuffer st))
      then Some (Min (fst ` set (audioBuffer st)))
      else nextPlaySeq st)"
proof -
  have ne: "sort (map fst (audioBuffer st)) \<noteq> []"
    using assms by (metis length_sort length_map length_0_conv)
  have hd: "sort (map fst (audioBuffer st)) = k # ks \<Longrightarrow> k = Min (fst ` set (audioBuffer st))"
    for k ks using sort_head_Min [of "map fst (audioBuffer st)" k ks] by simp
  have has: "(map_of (audioBuffer st) p = None) = (p \<notin> fst ` set (audioBuffer st))" for p
    by (simp add: map_of_eq_None_iff)
  show ?thesis
    using ne hd
    by (auto simp: startPlayback_def Let_def has split: list.splits option.splits)
qed

lemma playbackPhase_stays_playing:
  assumes "\<not> isBuffering st" "now \<le> nextPlayTime st"
  shows "\<not> isBuffering (listener_after (playbackPhase now st))"
proof -
  have u: "\<not> underrun now st"
    using assms(2) by (simp add: underrun_def split: option.splits)
  have d: "driftCorrection now st = st"
    using assms(2) by (simp add: driftCorrection_def Let_def)
  show ?thesis
    using u d assms(1) scheduleLoop_isBuffering [of now st 0 "[]"]
    by (simp add: playbackPhase_def Let_def updateDelayed_def)
qed

lemma playbackPhase_first:
  assumes "\<not> isBuffering st" "now \<le> nextPlayTime st"
  shows "sources_started (playbackPhase now st) = []
   \<or> (case nextPlaySeq st of
         None \<Rightarrow> False
       | Some p \<Rightarrow> hd (sources_started (playbackPhase now st)) = (p, nextPlayTime st))"
proof -
  have u: "\<not> underrun now st"
    using assms(2) by (simp add: underrun_def split: option.splits)
  have d: "driftCorrection now st = st"
    using assms(2) by (simp add: driftCorrection_def Let_def)
  have "sources_started (playbackPhase now st) = sources_started (scheduleLoop now st 0 [])"
    using u d by (simp add: playbackPhase_def Let_def)
  then show ?thesis
    using scheduleLoop_first [of now st 0] by (simp split: option.splits)
qed

text \<open>
  Claim C1. A tick in the buffering state compares the buffered duration (the sum over
  the buffered blocks of frames over sample rate) with the six-second target. At or
  above it, the tick leaves buffering; when the pointer is unset or not buffered it
  moves to the smallest buffered sequence number; the play time becomes the maximum of
  \<open>now + 0.2\<close> and its old value; the rest of the tick runs from that state, and the
  first source it starts, if any, is the pointer's at that play time. Below the target
  the tick returns with only the displayed buffer status refreshed. Hence a tick leaves
  buffering exactly when the target is reached.
\<close>

theorem buffering_tick:
  assumes "audioContext st" "isBuffering st"
  shows "delaySeconds (audioBuffer st)
           = (\<Sum>chunk\<leftarrow>map snd (audioBuffer st). (of_nat (length chunk) / 2) / 48000)
       \<and> (let st0 = st\<lparr>bufferStatus := (length (audioBuffer st), TARGET_BUFFER_SIZE,
                                         delaySeconds (audioBuffer st))\<rparr>;
               st1 = startPlayback now st0
           in if 6 \<le> delaySeconds (audioBuffer st)
              then scheduleAudio now st = playbackPhase now st1
                 \<and> \<not> isBuffering st1
                 \<and> nextPlaySeq st1 =
                     (if (case nextPlaySeq st of
                            None \<Rightarrow> True
                          | Some p \<Rightarrow> p \<notin> fst ` set (audioBuffer st))
                      then Some (Min (fst ` set (audioBuffer st)))
                      else nextPlaySeq st)
                 \<and> nextPlayTime st1 = max (now + 2 / 10) (nextPlayTime st)
                 \<and> audioBuffer st1 = audioBuffer st
                 \<and> (sources_started (scheduleAudio now st) = []
                    \<or> (case nextPlaySeq st1 of
                          None \<Rightarrow> False
                        | Some p \<Rightarrow>
                            hd (sources_started (scheduleAudio now st)) = (p, nextPlayTime st1)))
              else scheduleAudio now st = returned st0)
       \<and> isBuffering (listener_after (scheduleAudio now st))
           = (delaySeconds (audioBuffer st) < 6)"
proof -
  define st0 where "st0 = st\<lparr>bufferStatus := (length (audioBuffer st), TARGET_BUFFER_SIZE,
                                         delaySeconds (audioBuffer st))\<rparr>"
  define st1 where "st1 = startPlayback now st0"
  have b0: "isBuffering st0" "audioBuffer st0 = audioBuffer st"
    "nextPlaySeq st0 = nextPlaySeq st" "nextPlayTime st0 = nextPlayTime st"
    using assms by (simp_all add: st0_def)
  have tick: "scheduleAudio now st =
     (case bufferingPhase now st0 of None \<Rightarrow> returned st0 | Some s \<Rightarrow> playbackPhase now s)"
    using assms(1) unfolding st0_def by (simp add: scheduleAudio_def Let_def)
  have part1: "delaySeconds (audioBuffer st)
           = (\<Sum>chunk\<leftarrow>map snd (audioBuffer st). (of_nat (length chunk) / 2) / 48000)"
    by (rule delaySeconds_sum)
  show ?thesis
  proof (cases "6 \<le> delaySeconds (audioBuffer st)")
    case True
    have ne: "audioBuffer st0 \<noteq> []"
      using True b0(2) delaySeconds_Nil by auto
    have ph: "bufferingPhase now st0 = Some st1"
      using True b0 by (simp add: bufferingPhase_def TARGET_DELAY_SECONDS_def st1_def)
    have t1: "scheduleAudio now st = playbackPhase now st1"
      using tick ph by simp
    have f1: "\<not> isBuffering st1" "audioBuffer st1 = audioBuffer st"
      "nextPlayTime st1 = max (now + 2 / 10) (nextPlayTime st)"
      using b0 by (simp_all add: st1_def startPlayback_fields)
    have f2: "nextPlaySeq st1 =
                     (if (case nextPlaySeq st of
                            None \<Rightarrow> True
                          | Some p \<Rightarrow> p \<notin> fst ` set (audioBuffer st))
                      then Some (Min (fst ` set (audioBuffer st)))
                      else nextPlaySeq st)"
      using startPlayback_pointer [OF ne, of now] b0
      by (simp add: st1_def split: option.splits)
    have ge: "now \<le> nextPlayTime st1"
      using f1(3) by simp
    have f3: "\<not> isBuffering (listener_after (scheduleAudio now st))"
      using playbackPhase_stays_playing [OF f1(1) ge] t1 by simp
    have f4: "sources_started (scheduleAudio now st) = []
                    \<or> (case nextPlaySeq st1 of
                          None \<Rightarrow> False
                        | Some p \<Rightarrow>
                            hd (sources_started (scheduleAudio now st)) = (p, nextPlayTime st1))"
      unfolding t1 by (rule playbackPhase_first [OF f1(1) ge])
    from True part1 t1 f1 f2 f3 f4 show ?thesis
      unfolding Let_def st0_def [symmetric] st1_def [symmetric] by simp
  next
    case False
    have ph: "bufferingPhase now st0 = None"
      using False b0 by (simp add: bufferingPhase_def TARGET_DELAY_SECONDS_def)
    have t1: "scheduleAudio now st = returned st0"
      using tick ph by simp
    have "isBuffering (listener_after (scheduleAudio now st))"
      using t1 b0 by (simp add: returned_def)
    with False part1 t1 show ?thesis
      unfolding Let_def st0_def [symmetric] st1_def [symmetric] by simp
  qed
qed


text \<open>Unfolding a tick on a concrete listener.\<close>

lemmas tick_eval = scheduleAudio_def bufferingPhase_def playbackPhase_def startPlayback_def
  underrun_def driftCorrection_def updateDelayed_def returned_def delaySeconds_def
  totalSamples_def TARGET_DELAY_SECONDS_def SAMPLE_RATE_def SCHEDULE_AHEAD_TIME_def
  maxChunksPerCycle_def TARGET_BUFFER_SIZE_140 Let_def scheduleLoop.simps

text \<open>Scenario C at clock reading 3: nine seconds are buffered, playback starts at chunk 0.\<close>

theorem buffering_tick_witness:
  "audioContext scenarioC \<and> isBuffering scenarioC
   \<and> delaySeconds (audioBuffer scenarioC) = 9
   \<and> \<not> isBuffering (listener_after (scheduleAudio 3 scenarioC))
   \<and> sources_started (scheduleAudio 3 scenarioC) = [(0, 16 / 5)]
   \<and> nextPlaySeq (listener_after (scheduleAudio 3 scenarioC)) = Some 1"
proof -
  have h1: "audioContext scenarioC" and h2: "isBuffering scenarioC"
    by (simp_all add: scenarioC_def)
  have d: "delaySeconds (audioBuffer scenarioC) = 9"
    by (simp add: scenarioC_def delaySeconds_def totalSamples_def SAMPLE_RATE_def)
  from buffering_tick [OF h1 h2, of 3]
  have "isBuffering (listener_after (scheduleAudio 3 scenarioC))
        = (delaySeconds (audioBuffer scenarioC) < 6)"
    by blast
  with d have p: "\<not> isBuffering (listener_after (scheduleAudio 3 scenarioC))"
    by simp
  have e: "sources_started (scheduleAudio 3 scenarioC) = [(0, 16 / 5)]"
    "nextPlaySeq (listener_after (scheduleAudio 3 scenarioC)) = Some 1"
    by (simp_all add: scenarioC_def tick_eval)
  from h1 h2 d p e show ?thesis by blast
qed

lemma sorted_le_last: "sorted xs \<Longrightarrow> y \<in> set xs \<Longrightarrow> y \<le> last xs"
  by (induction xs) auto

lemma sort_last_Max:
  assumes "sort xs = k # ks"
  shows "last (k # ks) = Max (set xs)"
proof -
  have "sorted (sort xs)" by simp
  with assms have s: "sorted (k # ks)" by simp
  have "set (sort xs) = set xs" by simp
  with assms have e: "set xs = set (k # ks)" by simp
  have "Max (set (k # ks)) = last (k # ks)"
  proof (rule Max_eqI)
    show "finite (set (k # ks))" by simp
    show "last (k # ks) \<in> set (k # ks)" by (rule last_in_set) simp
    fix y assume "y \<in> set (k # ks)"
    with s show "y \<le> last (k # ks)" by (rule sorted_le_last)
  qed
  with e show ?thesis by simp
qed

lemma map_of_filter_keys:
  "map_of (filter (\<lambda>(k, v). Q k) al) k = (if Q k then map_of al k else None)"
  by (induction al) auto

lemma goLive_empty: "audioBuffer st = [] \<Longrightarrow> goLive now st = st"
  by (simp add: goLive_def Let_def)

lemma goLive_nonempty:
  assumes "audioContext st" "audioBuffer st \<noteq> []"
  defines "K \<equiv> fst ` set (audioBuffer st)"
  defines "targetStart \<equiv> max (Min K) (Max K - TARGET_BUFFER_SIZE)"
  shows "goLive now st =
     st\<lparr>audioBuffer := filter (\<lambda>(k, samples). \<not> k < targetStart) (audioBuffer st),
        nextPlaySeq := Some targetStart,
        nextPlayTime := now + 5 / 100,
        isDelayed := False,
        bufferStatus :=
          (length (filter (\<lambda>(k, samples). \<not> k < targetStart) (audioBuffer st)),
           TARGET_BUFFER_SIZE,
           of_nat (length (filter (\<lambda>(k, samples). \<not> k < targetStart) (audioBuffer st)))
             / CHUNKS_PER_SECOND)\<rparr>"
proof -
  let ?keys = "sort (map fst (audioBuffer st))"
  have "?keys \<noteq> []"
    using assms(2) by (metis length_sort length_map length_0_conv)
  then obtain k0 ks where keys: "?keys = k0 # ks" by (cases ?keys) auto
  have k0: "k0 = Min K" using sort_head_Min [OF keys] by (simp add: K_def)
  have lst: "last (k0 # ks) = Max K" using sort_last_Max [OF keys] by (simp add: K_def)
  have t: "max k0 (last (k0 # ks) - TARGET_BUFFER_SIZE) = targetStart"
    unfolding targetStart_def lst by (simp only: k0)
  have "fold (\<lambda>key b. if key < targetStart then AList.delete key b else b) ?keys (audioBuffer st)
        = filter (\<lambda>(k, v). \<not> (\<exists>x \<in> set ?keys. x < targetStart \<and> x = k)) (audioBuffer st)"
    using fold_delete_filter [of "\<lambda>key. key < targetStart" "\<lambda>key. key" ?keys "audioBuffer st"]
    by simp
  also have "\<dots> = filter (\<lambda>(k, samples). \<not> k < targetStart) (audioBuffer st)"
    by (rule filter_cong) (auto simp: rev_image_eqI)
  finally have f: "fold (\<lambda>key b. if key < targetStart then AList.delete key b else b)
                     (k0 # ks) (audioBuffer st)
                   = filter (\<lambda>(k, samples). \<not> k < targetStart) (audioBuffer st)"
    using keys by simp
  show ?thesis
    using assms(1) keys
    unfolding goLive_def Let_def
    by (simp only: list.case if_False if_True simp_thms t f)
qed


text \<open>
  Claim C3, as the code has it. With a non-empty buffer, go-live removes exactly the
  chunks below \<open>max oldest (newest - 140)\<close>, sets the pointer to that value and the
  play time to \<open>now + 0.05\<close>, and clears the delayed flag. The pointer is never below
  the oldest and never above the newest buffered sequence number; it is
  \<open>newest - 140\<close> when that is not below the oldest, and the oldest otherwise. So where
  every buffered sequence number is at most the latest-received counter, the pointer
  is at most \<open>max oldest (latest - 140)\<close>. With an empty buffer nothing changes.
\<close>

theorem goLive_jump:
  assumes "audioContext st"
  shows "TARGET_BUFFER_SIZE = 140
       \<and> (if audioBuffer st = [] then goLive now st = st
         else (let oldest = Min (fst ` set (audioBuffer st));
                   newest = Max (fst ` set (audioBuffer st));
                   targetStart = max oldest (newest - 140);
                   st' = goLive now st
               in audioBuffer st' = filter (\<lambda>(k, samples). \<not> k < targetStart) (audioBuffer st)
                \<and> map_of (audioBuffer st') k
                    = (if k < targetStart then None else map_of (audioBuffer st) k)
                \<and> nextPlaySeq st' = Some targetStart
                \<and> nextPlayTime st' = now + 5 / 100
                \<and> \<not> isDelayed st'
                \<and> isBuffering st' = isBuffering st
                \<and> latestReceivedSeq st' = latestReceivedSeq st
                \<and> oldest \<le> targetStart
                \<and> targetStart \<le> newest
                \<and> targetStart = (if oldest \<le> newest - 140 then newest - 140 else oldest)
                \<and> (list_all (\<lambda>(k, samples). k \<le> latestReceivedSeq st) (audioBuffer st)
                    \<longrightarrow> targetStart \<le> max oldest (latestReceivedSeq st - 140))))"
proof (cases "audioBuffer st = []")
  case True
  then show ?thesis by (simp add: goLive_empty TARGET_BUFFER_SIZE_140)
next
  case False
  define K where "K = fst ` set (audioBuffer st)"
  define targetStart where "targetStart = max (Min K) (Max K - 140)"
  have fin: "finite K" "K \<noteq> {}" using False by (simp_all add: K_def)
  have mm: "Min K \<le> Max K" using fin by simp
  note g = goLive_nonempty [OF assms False, of now,
      unfolded TARGET_BUFFER_SIZE_140 K_def [symmetric] targetStart_def [symmetric]]
  have a: "audioBuffer (goLive now st)
           = filter (\<lambda>(k, samples). \<not> k < targetStart) (audioBuffer st)"
    by (simp add: g)
  have b: "map_of (audioBuffer (goLive now st)) k
           = (if k < targetStart then None else map_of (audioBuffer st) k)"
    unfolding a using map_of_filter_keys [of "\<lambda>k. \<not> k < targetStart" "audioBuffer st" k]
    by simp
  have c: "nextPlaySeq (goLive now st) = Some targetStart"
    "nextPlayTime (goLive now st) = now + 5 / 100" "\<not> isDelayed (goLive now st)"
    "isBuffering (goLive now st) = isBuffering st"
    "latestReceivedSeq (goLive now st) = latestReceivedSeq st"
    by (simp_all add: g)
  have d: "Min K \<le> targetStart" "targetStart \<le> Max K"
    "targetStart = (if Min K \<le> Max K - 140 then Max K - 140 else Min K)"
    using mm by (auto simp: targetStart_def)
  have e: "targetStart \<le> max (Min K) (latestReceivedSeq st - 140)"
    if "list_all (\<lambda>(k, samples). k \<le> latestReceivedSeq st) (audioBuffer st)"
  proof -
    have "Max K \<in> K" using fin by simp
    then have "Max K \<le> latestReceivedSeq st"
      using that by (auto simp: K_def list_all_iff)
    then show ?thesis by (auto simp: targetStart_def)
  qed
  from False a b c d e show ?thesis
    unfolding Let_def K_def [symmetric] targetStart_def [symmetric]
    by (simp add: TARGET_BUFFER_SIZE_140)
qed

text \<open>The lagging listener goes live at clock reading 2: chunks 0 and 100 go, the pointer is 160.\<close>

theorem goLive_jump_witness:
  "audioContext laggingListener
   \<and> audioBuffer laggingListener \<noteq> []
   \<and> Min (fst ` set (audioBuffer laggingListener)) = 0
   \<and> Max (fst ` set (audioBuffer laggingListener)) = 300
   \<and> list_all (\<lambda>(k, samples). k \<le> latestReceivedSeq laggingListener)
        (audioBuffer laggingListener)
   \<and> nextPlaySeq (goLive 2 laggingListener) = Some 160
   \<and> audioBuffer (goLive 2 laggingListener) = [(300, [0, 0])]
   \<and> nextPlayTime (goLive 2 laggingListener) = 41 / 20
   \<and> \<not> isDelayed (goLive 2 laggingListener)"
proof -
  have h: "audioContext laggingListener" by (simp add: laggingListener_def)
  have ne: "audioBuffer laggingListener \<noteq> []" by (simp add: laggingListener_def)
  have lo: "Min (fst ` set (audioBuffer laggingListener)) = 0"
    and hi: "Max (fst ` set (audioBuffer laggingListener)) = 300"
    and le: "list_all (\<lambda>(k, samples). k \<le> latestReceivedSeq laggingListener)
               (audioBuffer laggingListener)"
    by (simp_all add: laggingListener_def)
  have fl: "filter (\<lambda>(k, samples). \<not> k < 160) (audioBuffer laggingListener) = [(300, [0, 0])]"
    by (simp add: laggingListener_def)
  from goLive_jump [OF h, of 2] ne
  have "audioBuffer (goLive 2 laggingListener)
          = filter (\<lambda>(k, samples). \<not> k < 160) (audioBuffer laggingListener)
        \<and> nextPlaySeq (goLive 2 laggingListener) = Some 160
        \<and> nextPlayTime (goLive 2 laggingListener) = 41 / 20
        \<and> \<not> isDelayed (goLive 2 laggingListener)"
    by (simp add: Let_def lo hi)
  with h ne lo hi le fl show ?thesis by simp
qed

text \<open>
  The bound \<open>latest - 140 + 1\<close> of claim C3 fails for the late joiner: the pointer
  becomes 5, the bound is \<open>-134\<close>.
\<close>

theorem goLive_pointer_counterexample:
  "audioContext lateJoiner
   \<and> map fst (audioBuffer lateJoiner) = [5]
   \<and> latestReceivedSeq lateJoiner = 5
   \<and> nextPlaySeq (goLive 0 lateJoiner) = Some 5
   \<and> \<not> (5 \<le> latestReceivedSeq lateJoiner - TARGET_BUFFER_SIZE + 1)"
  by (simp add: lateJoiner_def goLive_def Let_def TARGET_BUFFER_SIZE_140)









lemma startPlayback_pointer_cases:
  "nextPlaySeq (startPlayback now st) = nextPlaySeq st
   \<or> (\<exists>k. nextPlaySeq (startPlayback now st) = Some k)"
  by (auto simp: startPlayback_def Let_def split: list.splits option.splits)








section \<open>Relay properties\<close>

text \<open>A broadcast appends one message per open listener of the room, in table order.\<close>

lemma sendToClient_fields:
  "clients (sendToClient clientId message srv) = clients srv"
  "storage (sendToClient clientId message srv) = storage srv"
  by (simp_all add: sendToClient_def split: option.splits)

lemma broadcast_fold:
  assumes "\<And>c cl. (c, cl) \<in> set xs \<Longrightarrow> map_of (clients s) c = Some cl"
  shows "fold (\<lambda>(clientId, client) s.
             if conn_roomId client = Some roomId \<and> \<not> isHost client
             then sendToClient clientId message s else s) xs s
       = s\<lparr>sent := sent s @ map (\<lambda>l. (l, message))
                (map fst (filter (\<lambda>(clientId, client).
                   conn_roomId client = Some roomId \<and> \<not> isHost client \<and> ws client = OPEN) xs))\<rparr>"
  using assms
proof (induction xs arbitrary: s)
  case Nil
  show ?case by simp
next
  case (Cons x xs)
  obtain c cl where x: "x = (c, cl)" by (cases x)
  have look: "map_of (clients s) c = Some cl"
    using Cons.prems [of c cl] by (simp add: x)
  let ?s' = "if conn_roomId cl = Some roomId \<and> \<not> isHost cl
             then sendToClient c message s else s"
  have cs: "clients ?s' = clients s" by (simp add: sendToClient_fields)
  have "\<And>c' cl'. (c', cl') \<in> set xs \<Longrightarrow> map_of (clients ?s') c' = Some cl'"
    using Cons.prems unfolding cs by simp
  from Cons.IH [OF this] look show ?case
    by (simp add: x sendToClient_def)
qed

lemma broadcastToListeners_sent:
  assumes "distinct (map fst (clients srv))"
  shows "broadcastToListeners roomId message srv
       = srv\<lparr>sent := sent srv @ map (\<lambda>l. (l, message)) (listeners_of roomId srv)\<rparr>"
  unfolding broadcastToListeners_def listeners_of_def
  by (rule broadcast_fold) (simp add: assms)

lemma filter_update_host:
  assumes "\<not> P v" "\<And>v'. (k, v') \<in> set al \<Longrightarrow> \<not> P v'"
  shows "map fst (filter (\<lambda>(c, cl). P cl) (AList.update k v al))
       = map fst (filter (\<lambda>(c, cl). P cl) al)"
  using assms by (induction al) auto

lemma listeners_of_update_host:
  assumes "distinct (map fst (clients srv))" "map_of (clients srv) clientId = Some connection"
    "isHost connection" "isHost connection'"
  shows "listeners_of roomId (srv\<lparr>clients := AList.update clientId connection' (clients srv)\<rparr>)
       = listeners_of roomId srv"
proof -
  have "\<And>v'. (clientId, v') \<in> set (clients srv) \<Longrightarrow> isHost v'"
    using assms(1,2,3) by (metis map_of_is_SomeI option.inject)
  then show ?thesis
    unfolding listeners_of_def
    using filter_update_host [of "\<lambda>cl. conn_roomId cl = Some roomId \<and> \<not> isHost cl \<and> ws cl = OPEN"
        connection' clientId "clients srv"] assms(4)
    by simp
qed

lemma listeners_of_frame:
  "listeners_of roomId (srv\<lparr>storage := x\<rparr>) = listeners_of roomId srv"
  "listeners_of roomId (srv\<lparr>sent := y\<rparr>) = listeners_of roomId srv"
  by (simp_all add: listeners_of_def)

text \<open>The handler in closed form, for a connection that is a room's source.\<close>

lemma on_audio_data_host:
  assumes "distinct (map fst (clients srv))" "map_of (clients srv) clientId = Some connection"
    "isHost connection" "conn_roomId connection = Some roomId" "roomId \<noteq> []"
  shows "on_audio_data now clientId message srv =
     srv\<lparr>clients := AList.update clientId
                       (connection\<lparr>lastAudioTime := now, isStreaming := True\<rparr>) (clients srv),
         storage := (if isStreaming connection then storage srv
                     else setRoomActive roomId True (storage srv)),
         sent := sent srv
           @ (if isStreaming connection then []
              else map (\<lambda>l. (l, HostStreamingMessage)) (listeners_of roomId srv))
           @ (case msg_data message of
                None \<Rightarrow> []
              | Some d \<Rightarrow>
                  if d \<noteq> [] \<and> length d \<le> 5242880
                  then map (\<lambda>l. (l, AudioDataMessage d (msg_seq message) (msg_timestamp message)))
                         (listeners_of roomId srv)
                  else [])\<rparr>"
proof -
  define c1 where "c1 = connection\<lparr>lastAudioTime := now\<rparr>"
  define c2 where "c2 = connection\<lparr>lastAudioTime := now, isStreaming := True\<rparr>"
  define srv1 where "srv1 = srv\<lparr>clients := AList.update clientId c1 (clients srv)\<rparr>"
  define srv2 where "srv2 =
     (if \<not> isStreaming connection
      then broadcastToListeners roomId HostStreamingMessage
             (srv1\<lparr>clients := AList.update clientId c2 (clients srv1),
                   storage := setRoomActive roomId True (storage srv1)\<rparr>)
      else srv1)"
  have h1: "isHost c1" "isHost c2" using assms(3) by (simp_all add: c1_def c2_def)
  have d1: "distinct (map fst (clients srv1))"
    using assms(1) by (simp add: srv1_def distinct_update)
  have l1: "listeners_of roomId srv1 = listeners_of roomId srv"
    unfolding srv1_def using assms(1,2,3) h1(1) by (rule listeners_of_update_host)
  have upd2: "AList.update clientId c2 (clients srv1) = AList.update clientId c2 (clients srv)"
    by (simp add: srv1_def)
  have same: "isStreaming connection \<Longrightarrow> c2 = c1"
    by (simp add: c1_def c2_def)
  define srv1' where "srv1' = srv1\<lparr>clients := AList.update clientId c2 (clients srv1),
                   storage := setRoomActive roomId True (storage srv1)\<rparr>"
  have d1': "distinct (map fst (clients srv1'))"
    using assms(1) by (simp add: srv1'_def upd2 distinct_update)
  have base: "listeners_of roomId (srv\<lparr>clients := AList.update clientId c2 (clients srv)\<rparr>)
          = listeners_of roomId srv"
    using assms(1,2,3) h1(2) by (rule listeners_of_update_host)
  have lA: "listeners_of roomId (srv\<lparr>clients := AList.update clientId c2 (clients srv),
                                      storage := x\<rparr>) = listeners_of roomId srv" for x
    using base by (simp add: listeners_of_def)
  have l1': "listeners_of roomId srv1' = listeners_of roomId srv"
    using lA by (simp add: srv1'_def upd2 srv1_def)
  have s2: "srv2 = srv\<lparr>clients := AList.update clientId c2 (clients srv),
         storage := (if isStreaming connection then storage srv
                     else setRoomActive roomId True (storage srv)),
         sent := sent srv
           @ (if isStreaming connection then []
              else map (\<lambda>l. (l, HostStreamingMessage)) (listeners_of roomId srv))\<rparr>"
  proof (cases "isStreaming connection")
    case True
    then show ?thesis by (simp add: srv2_def srv1_def same)
  next
    case False
    have "srv2 = broadcastToListeners roomId HostStreamingMessage srv1'"
      using False by (simp add: srv2_def srv1'_def)
    also have "\<dots> = srv1'\<lparr>sent := sent srv1'
                 @ map (\<lambda>l. (l, HostStreamingMessage)) (listeners_of roomId srv1')\<rparr>"
      using d1' by (rule broadcastToListeners_sent)
    finally show ?thesis
      using False by (simp add: l1' lA srv1'_def upd2 srv1_def)
  qed
  have d2: "distinct (map fst (clients srv2))"
    using assms(1) by (simp add: s2 distinct_update)
  have l2: "listeners_of roomId srv2 = listeners_of roomId srv"
  proof -
    have "listeners_of roomId (srv\<lparr>clients := AList.update clientId c2 (clients srv)\<rparr>)
          = listeners_of roomId srv"
      using assms(1,2,3) h1(2) by (rule listeners_of_update_host)
    then show ?thesis
      by (simp add: s2 listeners_of_def)
  qed
  have main: "on_audio_data now clientId message srv =
     (case msg_data message of
        None \<Rightarrow> srv2
      | Some d \<Rightarrow>
          (if length d = 0 then srv2
           else if 5242880 < length d then srv2
           else broadcastToListeners roomId
                  (AudioDataMessage d (msg_seq message) (msg_timestamp message)) srv2))"
    using assms(2,3,4,5)
    unfolding srv2_def srv1_def c1_def c2_def
    by (simp add: on_audio_data_def Let_def)
  show ?thesis
  proof (cases "msg_data message")
    case None
    with main show ?thesis by (simp add: s2 c2_def)
  next
    case (Some d)
    show ?thesis
    proof (cases "d \<noteq> [] \<and> length d \<le> 5242880")
      case False
      with main Some show ?thesis by (auto simp: s2 c2_def)
    next
      case True
      with main Some have "on_audio_data now clientId message srv =
          broadcastToListeners roomId
            (AudioDataMessage d (msg_seq message) (msg_timestamp message)) srv2"
        by auto
      also have "\<dots> = srv2\<lparr>sent := sent srv2
           @ map (\<lambda>l. (l, AudioDataMessage d (msg_seq message) (msg_timestamp message)))
               (listeners_of roomId srv)\<rparr>"
        using broadcastToListeners_sent [OF d2] l2 by simp
      finally show ?thesis
        using True Some by (simp add: s2 c2_def)
    qed
  qed
qed


lemma emitted_append: "sent srv' = sent srv @ extra \<Longrightarrow> emitted srv srv' = extra"
  by (simp add: emitted_def)

lemma received_by_Nil: "received_by l [] = []"
  by (simp add: received_by_def)

lemma received_by_append:
  "received_by l (xs @ ys) = received_by l xs @ received_by l ys"
  by (simp add: received_by_def)

lemma received_by_broadcast:
  "distinct ls \<Longrightarrow>
     received_by l (map (\<lambda>x. (x, m)) ls) = (if l \<in> set ls then [m] else [])"
  by (induction ls) (auto simp: received_by_def)

lemma distinct_listeners_of:
  "distinct (map fst (clients srv)) \<Longrightarrow> distinct (listeners_of roomId srv)"
  unfolding listeners_of_def by (rule distinct_map_filter)

lemma streaming_run:
  assumes "distinct (map fst (clients srv))" "map_of (clients srv) clientId = Some connection"
    "isHost connection" "conn_roomId connection = Some roomId" "roomId \<noteq> []"
    "isStreaming connection"
  shows "\<exists>extra. sent (fold (\<lambda>(t, m). on_audio_data t clientId m) later srv) = sent srv @ extra
               \<and> HostStreamingMessage \<notin> snd ` set extra"
  using assms
proof (induction later arbitrary: srv connection)
  case Nil
  show ?case by simp
next
  case (Cons x later)
  obtain t m where x: "x = (t, m)" by (cases x)
  define srv' where "srv' = on_audio_data t clientId m srv"
  define c' where "c' = connection\<lparr>lastAudioTime := t, isStreaming := True\<rparr>"
  note cf = on_audio_data_host [OF Cons.prems(1-5), of t m, folded srv'_def]
  have cl: "clients srv' = AList.update clientId c' (clients srv)"
    by (subst cf) (simp add: c'_def)
  have p: "distinct (map fst (clients srv'))" "map_of (clients srv') clientId = Some c'"
    "isHost c'" "conn_roomId c' = Some roomId" "isStreaming c'"
    using Cons.prems by (simp_all add: cl distinct_update update_conv' c'_def)
  obtain e1 where e1: "sent srv' = sent srv @ e1" "HostStreamingMessage \<notin> snd ` set e1"
  proof
    show "sent srv' = sent srv @
            (case msg_data m of
                None \<Rightarrow> []
              | Some d \<Rightarrow>
                  if d \<noteq> [] \<and> length d \<le> 5242880
                  then map (\<lambda>l. (l, AudioDataMessage d (msg_seq m) (msg_timestamp m)))
                         (listeners_of roomId srv)
                  else [])"
      using Cons.prems(6) by (subst cf) simp
    show "HostStreamingMessage \<notin> snd ` set
            (case msg_data m of
                None \<Rightarrow> []
              | Some d \<Rightarrow>
                  if d \<noteq> [] \<and> length d \<le> 5242880
                  then map (\<lambda>l. (l, AudioDataMessage d (msg_seq m) (msg_timestamp m)))
                         (listeners_of roomId srv)
                  else [])"
      by (auto split: option.splits)
  qed
  from Cons.IH [OF p(1,2,3,4) Cons.prems(5) p(5)]
  obtain e2 where e2: "sent (fold (\<lambda>(t, m). on_audio_data t clientId m) later srv')
                       = sent srv' @ e2" "HostStreamingMessage \<notin> snd ` set e2"
    by blast
  have "sent (fold (\<lambda>(t, m). on_audio_data t clientId m) (x # later) srv) = sent srv @ (e1 @ e2)"
    using e1(1) e2(1) by (simp add: x srv'_def)
  moreover have "HostStreamingMessage \<notin> snd ` set (e1 @ e2)"
    using e1(2) e2(2) by auto
  ultimately show ?case by blast
qed

text \<open>
  Claim C6, as the code has it. For a room's source not yet marked streaming, an
  \<^verbatim>\<open>audio_data\<close> message marks it streaming, sets the room's active flag, and sends
  \<^verbatim>\<open>host_streaming\<close> to every open listener connection of the room before anything is
  relayed. Each of them receives exactly one \<^verbatim>\<open>host_streaming\<close>, followed by the
  \<^verbatim>\<open>audio_data\<close> message with the same data, sequence number and timestamp when the
  payload is a non-empty string of at most 5242880 characters, and by nothing
  otherwise; no other connection receives anything. Later \<^verbatim>\<open>audio_data\<close> messages
  of the session produce no \<^verbatim>\<open>host_streaming\<close>.
\<close>

theorem first_audio_data:
  assumes "distinct (map fst (clients srv))" "map_of (clients srv) clientId = Some connection"
    "isHost connection" "conn_roomId connection = Some roomId" "roomId \<noteq> []"
    "\<not> isStreaming connection"
  shows "(let srv' = on_audio_data now clientId message srv;
              ls = listeners_of roomId srv;
              relayed = (case msg_data message of
                           None \<Rightarrow> []
                         | Some d \<Rightarrow>
                             if d \<noteq> [] \<and> length d \<le> 5242880
                             then [AudioDataMessage d (msg_seq message) (msg_timestamp message)]
                             else [])
          in map_of (clients srv') clientId
               = Some (connection\<lparr>lastAudioTime := now, isStreaming := True\<rparr>)
           \<and> storage srv' = setRoomActive roomId True (storage srv)
           \<and> (case map_of (rooms (storage srv)) roomId of
                 None \<Rightarrow> True
               | Some room \<Rightarrow>
                   map_of (rooms (storage srv')) roomId = Some (room\<lparr>isActive := True\<rparr>))
           \<and> emitted srv srv'
               = map (\<lambda>l. (l, HostStreamingMessage)) ls
                 @ (case relayed of [] \<Rightarrow> [] | m # ms \<Rightarrow> map (\<lambda>l. (l, m)) ls)
           \<and> (\<forall>l \<in> set ls. received_by l (emitted srv srv') = HostStreamingMessage # relayed)
           \<and> (\<forall>l. l \<notin> set ls \<longrightarrow> received_by l (emitted srv srv') = [])
           \<and> HostStreamingMessage
               \<notin> snd ` set (emitted srv' (fold (\<lambda>(t, m). on_audio_data t clientId m) later srv')))"
proof -
  define srv' where "srv' = on_audio_data now clientId message srv"
  define ls where "ls = listeners_of roomId srv"
  define relayed where "relayed = (case msg_data message of
                           None \<Rightarrow> []
                         | Some d \<Rightarrow>
                             if d \<noteq> [] \<and> length d \<le> 5242880
                             then [AudioDataMessage d (msg_seq message) (msg_timestamp message)]
                             else [])"
  define c' where "c' = connection\<lparr>lastAudioTime := now, isStreaming := True\<rparr>"
  note cf = on_audio_data_host [OF assms(1-5), of now message, folded srv'_def]
  have cl: "clients srv' = AList.update clientId c' (clients srv)"
    by (subst cf) (simp add: c'_def)
  have a: "map_of (clients srv') clientId = Some c'"
    by (simp add: cl update_conv')
  have b: "storage srv' = setRoomActive roomId True (storage srv)"
    using assms(6) by (subst cf) simp
  have c: "case map_of (rooms (storage srv)) roomId of
                 None \<Rightarrow> True
               | Some room \<Rightarrow>
                   map_of (rooms (storage srv')) roomId = Some (room\<lparr>isActive := True\<rparr>)"
    by (simp add: b setRoomActive_def update_conv' split: option.splits)
  have s: "sent srv' = sent srv @ (map (\<lambda>l. (l, HostStreamingMessage)) ls
                 @ (case relayed of [] \<Rightarrow> [] | m # ms \<Rightarrow> map (\<lambda>l. (l, m)) ls))"
    using assms(6) by (subst cf) (simp add: ls_def relayed_def split: option.splits)
  have d: "emitted srv srv' = map (\<lambda>l. (l, HostStreamingMessage)) ls
                 @ (case relayed of [] \<Rightarrow> [] | m # ms \<Rightarrow> map (\<lambda>l. (l, m)) ls)"
    using s by (rule emitted_append)
  have dl: "distinct ls"
    unfolding ls_def using assms(1) by (rule distinct_listeners_of)
  have rel: "relayed = [] \<or> (\<exists>m. relayed = [m])"
    by (auto simp: relayed_def split: option.splits)
  have e: "received_by l (emitted srv srv') = (if l \<in> set ls then HostStreamingMessage # relayed else [])"
    for l
    using rel dl by (auto simp: d received_by_append received_by_broadcast received_by_Nil)
  have p: "distinct (map fst (clients srv'))" "isHost c'" "conn_roomId c' = Some roomId"
    "isStreaming c'"
    using assms by (simp_all add: cl distinct_update c'_def)
  from streaming_run [OF p(1) a p(2,3) assms(5) p(4), of later]
  obtain extra where "sent (fold (\<lambda>(t, m). on_audio_data t clientId m) later srv')
                       = sent srv' @ extra" "HostStreamingMessage \<notin> snd ` set extra"
    by blast
  then have f: "HostStreamingMessage
               \<notin> snd ` set (emitted srv' (fold (\<lambda>(t, m). on_audio_data t clientId m) later srv'))"
    by (simp add: emitted_append)
  from a b c d e f show ?thesis
    unfolding Let_def srv'_def [symmetric] ls_def [symmetric] relayed_def [symmetric]
      c'_def [symmetric]
    by simp
qed


text \<open>Unfolding the handler on a concrete relay.\<close>

lemmas relay_eval = on_audio_data_def broadcastToListeners_def sendToClient_def
  setRoomActive_def emitted_def received_by_def listeners_of_def Let_def

text \<open>The first chunk in the one-room relay: \<open>l1\<close> gets the notice, then the chunk.\<close>

theorem first_audio_data_witness:
  "distinct (map fst (clients roomABC))
   \<and> map_of (clients roomABC) ''h''
       = Some \<lparr>ws = OPEN, conn_clientId = ''h'', conn_roomId = Some ''ABC234'',
                isHost = True, isStreaming = False, lastAudioTime = 0\<rparr>
   \<and> listeners_of ''ABC234'' roomABC = [''l1'']
   \<and> received_by ''l1''
        (emitted roomABC
          (on_audio_data 7 ''h''
             \<lparr>msg_data = Some ''AAAA'', msg_seq = Some 0, msg_timestamp = Some 10\<rparr> roomABC))
       = [HostStreamingMessage, AudioDataMessage ''AAAA'' (Some 0) (Some 10)]"
proof -
  let ?h = "\<lparr>ws = OPEN, conn_clientId = ''h'', conn_roomId = Some ''ABC234'',
                isHost = True, isStreaming = False, lastAudioTime = 0\<rparr>"
  let ?m = "\<lparr>msg_data = Some ''AAAA'', msg_seq = Some 0, msg_timestamp = Some 10\<rparr>"
  have h1: "distinct (map fst (clients roomABC))" by (simp add: roomABC_def)
  have h2: "map_of (clients roomABC) ''h'' = Some ?h" by (simp add: roomABC_def)
  have h3: "isHost ?h" and h4: "conn_roomId ?h = Some ''ABC234''" and h5: "''ABC234'' \<noteq> []"
    and h6: "\<not> isStreaming ?h" by simp_all
  have ls: "listeners_of ''ABC234'' roomABC = [''l1'']"
    by (simp add: roomABC_def listeners_of_def)
  from first_audio_data [OF h1 h2 h3 h4 h5 h6, of 7 ?m "[]"]
  have "\<forall>l \<in> set (listeners_of ''ABC234'' roomABC).
          received_by l (emitted roomABC (on_audio_data 7 ''h'' ?m roomABC))
          = HostStreamingMessage # (case msg_data ?m of
                           None \<Rightarrow> []
                         | Some d \<Rightarrow>
                             if d \<noteq> [] \<and> length d \<le> 5242880
                             then [AudioDataMessage d (msg_seq ?m) (msg_timestamp ?m)]
                             else [])"
    unfolding Let_def by blast
  then have "received_by ''l1'' (emitted roomABC (on_audio_data 7 ''h'' ?m roomABC))
       = [HostStreamingMessage, AudioDataMessage ''AAAA'' (Some 0) (Some 10)]"
    by (simp add: ls)
  with h1 h2 ls show ?thesis by blast
qed

text \<open>
  The first \<^verbatim>\<open>audio_data\<close> message of the source carries an empty payload: \<open>l1\<close>
  receives \<^verbatim>\<open>host_streaming\<close> and no \<^verbatim>\<open>audio_data\<close> after it.
\<close>

theorem first_audio_data_counterexample:
  "listeners_of ''ABC234'' roomABC = [''l1'']
   \<and> received_by ''l1''
        (emitted roomABC
          (on_audio_data 7 ''h''
             \<lparr>msg_data = Some [], msg_seq = Some 0, msg_timestamp = Some 10\<rparr> roomABC))
       = [HostStreamingMessage]"
  by (simp add: roomABC_def relay_eval)

lemma map_ws_update:
  "map_of al k = Some v \<Longrightarrow> g v' = g v \<Longrightarrow>
     map (\<lambda>(c, cl). g cl) (AList.update k v' al) = map (\<lambda>(c, cl). g cl) al"
  by (induction al) (auto split: if_splits)

text \<open>
  Claim C7, as the code has it. A payload that is a non-empty string of at most
  5242880 characters is relayed to every open listener connection of the room. For a
  payload that is not a string, is empty, or is longer, no \<^verbatim>\<open>audio_data\<close> and no
  \<^verbatim>\<open>error\<close> message is sent and every socket stays as it is: a source already
  marked streaming sends nothing and leaves the registry unchanged; a source not yet
  marked streaming is marked, the room's active flag is set, and the room's open
  listeners receive \<^verbatim>\<open>host_streaming\<close> only.
\<close>

theorem invalid_payload_dropped:
  assumes "distinct (map fst (clients srv))" "map_of (clients srv) clientId = Some connection"
    "isHost connection" "conn_roomId connection = Some roomId" "roomId \<noteq> []"
  shows "(d \<noteq> [] \<and> length d \<le> 5242880 \<longrightarrow>
            (\<forall>l \<in> set (listeners_of roomId srv).
               (l, AudioDataMessage d sq ts)
               \<in> set (emitted srv
                       (on_audio_data now clientId
                          \<lparr>msg_data = Some d, msg_seq = sq, msg_timestamp = ts\<rparr> srv))))
       \<and> (payload = None \<or> payload = Some []
          \<or> (case payload of None \<Rightarrow> False | Some x \<Rightarrow> 5242880 < length x) \<longrightarrow>
            (let srv' = on_audio_data now clientId
                          \<lparr>msg_data = payload, msg_seq = sq, msg_timestamp = ts\<rparr> srv
             in clients srv' = AList.update clientId
                                 (connection\<lparr>lastAudioTime := now, isStreaming := True\<rparr>)
                                 (clients srv)
              \<and> map (\<lambda>(c, cl). ws cl) (clients srv') = map (\<lambda>(c, cl). ws cl) (clients srv)
              \<and> (if isStreaming connection
                  then emitted srv srv' = [] \<and> storage srv' = storage srv
                  else emitted srv srv'
                         = map (\<lambda>l. (l, HostStreamingMessage)) (listeners_of roomId srv)
                     \<and> storage srv' = setRoomActive roomId True (storage srv))))"
proof (intro conjI impI)
  assume v: "d \<noteq> [] \<and> length d \<le> 5242880"
  let ?m = "\<lparr>msg_data = Some d, msg_seq = sq, msg_timestamp = ts\<rparr>"
  have "sent (on_audio_data now clientId ?m srv) = sent srv
           @ ((if isStreaming connection then []
              else map (\<lambda>l. (l, HostStreamingMessage)) (listeners_of roomId srv))
           @ map (\<lambda>l. (l, AudioDataMessage d sq ts)) (listeners_of roomId srv))"
    using v by (subst on_audio_data_host [OF assms]) simp
  then have "emitted srv (on_audio_data now clientId ?m srv)
           = (if isStreaming connection then []
              else map (\<lambda>l. (l, HostStreamingMessage)) (listeners_of roomId srv))
           @ map (\<lambda>l. (l, AudioDataMessage d sq ts)) (listeners_of roomId srv)"
    by (rule emitted_append)
  then show "\<forall>l \<in> set (listeners_of roomId srv).
               (l, AudioDataMessage d sq ts) \<in> set (emitted srv (on_audio_data now clientId ?m srv))"
    by auto
next
  assume i: "payload = None \<or> payload = Some []
          \<or> (case payload of None \<Rightarrow> False | Some x \<Rightarrow> 5242880 < length x)"
  let ?m = "\<lparr>msg_data = payload, msg_seq = sq, msg_timestamp = ts\<rparr>"
  define srv' where "srv' = on_audio_data now clientId ?m srv"
  define c' where "c' = connection\<lparr>lastAudioTime := now, isStreaming := True\<rparr>"
  note cf = on_audio_data_host [OF assms, of now ?m, folded srv'_def]
  have a: "clients srv' = AList.update clientId c' (clients srv)"
    by (subst cf) (simp add: c'_def)
  have b: "map (\<lambda>(c, cl). ws cl) (clients srv') = map (\<lambda>(c, cl). ws cl) (clients srv)"
    unfolding a using assms(2) by (rule map_ws_update) (simp add: c'_def)
  have s: "sent srv' = sent srv
           @ (if isStreaming connection then []
              else map (\<lambda>l. (l, HostStreamingMessage)) (listeners_of roomId srv))"
    using i by (subst cf) (auto split: option.splits)
  have e: "emitted srv srv'
           = (if isStreaming connection then []
              else map (\<lambda>l. (l, HostStreamingMessage)) (listeners_of roomId srv))"
    using s by (rule emitted_append)
  have st: "storage srv' = (if isStreaming connection then storage srv
                     else setRoomActive roomId True (storage srv))"
    by (subst cf) simp
  from a b e st show "let srv' = on_audio_data now clientId ?m srv
             in clients srv' = AList.update clientId
                                 (connection\<lparr>lastAudioTime := now, isStreaming := True\<rparr>)
                                 (clients srv)
              \<and> map (\<lambda>(c, cl). ws cl) (clients srv') = map (\<lambda>(c, cl). ws cl) (clients srv)
              \<and> (if isStreaming connection
                  then emitted srv srv' = [] \<and> storage srv' = storage srv
                  else emitted srv srv'
                         = map (\<lambda>l. (l, HostStreamingMessage)) (listeners_of roomId srv)
                     \<and> storage srv' = setRoomActive roomId True (storage srv))"
    unfolding Let_def srv'_def [symmetric] c'_def [symmetric] by simp
qed


text \<open>The streaming room: a good chunk reaches \<open>l1\<close>, an empty and an oversized one reach nobody.\<close>

theorem invalid_payload_dropped_witness:
  "distinct (map fst (clients liveRoomABC))
   \<and> map_of (clients liveRoomABC) ''h''
       = Some \<lparr>ws = OPEN, conn_clientId = ''h'', conn_roomId = Some ''ABC234'',
                isHost = True, isStreaming = True, lastAudioTime = 7\<rparr>
   \<and> listeners_of ''ABC234'' liveRoomABC = [''l1'']
   \<and> (''l1'', AudioDataMessage ''BBBB'' (Some 1) (Some 20))
       \<in> set (emitted liveRoomABC
                (on_audio_data 8 ''h''
                   \<lparr>msg_data = Some ''BBBB'', msg_seq = Some 1, msg_timestamp = Some 20\<rparr>
                   liveRoomABC))
   \<and> emitted liveRoomABC
        (on_audio_data 9 ''h''
           \<lparr>msg_data = Some [], msg_seq = Some 2, msg_timestamp = Some 30\<rparr> liveRoomABC) = []
   \<and> storage
        (on_audio_data 9 ''h''
           \<lparr>msg_data = Some [], msg_seq = Some 2, msg_timestamp = Some 30\<rparr> liveRoomABC)
       = storage liveRoomABC
   \<and> emitted liveRoomABC
        (on_audio_data 9 ''h''
           \<lparr>msg_data = Some (replicate 5242881 CHR ''A''), msg_seq = Some 2,
            msg_timestamp = Some 30\<rparr> liveRoomABC) = []"
proof -
  let ?h = "\<lparr>ws = OPEN, conn_clientId = ''h'', conn_roomId = Some ''ABC234'',
                isHost = True, isStreaming = True, lastAudioTime = 7\<rparr>"
  have h1: "distinct (map fst (clients liveRoomABC))"
    by (simp add: liveRoomABC_def roomABC_def relay_eval)
  have h2: "map_of (clients liveRoomABC) ''h'' = Some ?h"
    by (simp add: liveRoomABC_def roomABC_def relay_eval)
  have h3: "isHost ?h" and h4: "conn_roomId ?h = Some ''ABC234''" and h5: "''ABC234'' \<noteq> []"
    and h6: "isStreaming ?h"
    by simp_all
  have ls: "listeners_of ''ABC234'' liveRoomABC = [''l1'']"
    by (simp add: liveRoomABC_def roomABC_def relay_eval)
  have v: "''BBBB'' \<noteq> [] \<and> length ''BBBB'' \<le> 5242880" by simp
  have i1: "Some [] = None \<or> Some [] = Some ([] :: string)
          \<or> (case Some ([] :: string) of None \<Rightarrow> False | Some x \<Rightarrow> 5242880 < length x)"
    by simp
  have i2: "Some (replicate 5242881 CHR ''A'') = None
          \<or> Some (replicate 5242881 CHR ''A'') = Some []
          \<or> (case Some (replicate 5242881 CHR ''A'') of
                None \<Rightarrow> False
              | Some x \<Rightarrow> 5242880 < length x)"
    by simp
  from invalid_payload_dropped [OF h1 h2 h3 h4 h5, of "''BBBB''" "Some 1" "Some 20" 8] v ls
  have a: "(''l1'', AudioDataMessage ''BBBB'' (Some 1) (Some 20))
       \<in> set (emitted liveRoomABC
                (on_audio_data 8 ''h''
                   \<lparr>msg_data = Some ''BBBB'', msg_seq = Some 1, msg_timestamp = Some 20\<rparr>
                   liveRoomABC))"
    by simp
  from invalid_payload_dropped [OF h1 h2 h3 h4 h5, of _ "Some 2" "Some 30" 9 "Some []"] i1 h6
  have b: "emitted liveRoomABC
        (on_audio_data 9 ''h''
           \<lparr>msg_data = Some [], msg_seq = Some 2, msg_timestamp = Some 30\<rparr> liveRoomABC) = []
     \<and> storage
        (on_audio_data 9 ''h''
           \<lparr>msg_data = Some [], msg_seq = Some 2, msg_timestamp = Some 30\<rparr> liveRoomABC)
       = storage liveRoomABC"
    unfolding Let_def by simp
  from invalid_payload_dropped [OF h1 h2 h3 h4 h5, of _ "Some 2" "Some 30" 9
      "Some (replicate 5242881 CHR ''A'')"] i2 h6
  have c: "emitted liveRoomABC
        (on_audio_data 9 ''h''
           \<lparr>msg_data = Some (replicate 5242881 CHR ''A''), msg_seq = Some 2,
            msg_timestamp = Some 30\<rparr> liveRoomABC) = []"
    unfolding Let_def by simp
  from h1 h2 ls a b c show ?thesis by blast
qed

text \<open>
  An empty payload from a source not yet marked streaming: a message goes out to \<open>l1\<close>
  and the registry's room becomes active.
\<close>

theorem invalid_payload_counterexample:
  "emitted roomABC
     (on_audio_data 7 ''h''
        \<lparr>msg_data = Some [], msg_seq = Some 0, msg_timestamp = Some 10\<rparr> roomABC)
     = [(''l1'', HostStreamingMessage)]
   \<and> map_of (rooms (storage roomABC)) ''ABC234''
       = Some \<lparr>room_id = ''ABC234'', room_hostId = ''h'', isActive = False, createdAt = 0\<rparr>
   \<and> map_of (rooms (storage
        (on_audio_data 7 ''h''
           \<lparr>msg_data = Some [], msg_seq = Some 0, msg_timestamp = Some 10\<rparr> roomABC))) ''ABC234''
       = Some \<lparr>room_id = ''ABC234'', room_hostId = ''h'', isActive = True, createdAt = 0\<rparr>"
  by (simp add: roomABC_def relay_eval)

end
